(* ===== verification/Prelude.thy ===== *)
theory Prelude
  imports Main "HOL-Library.Word" "HOL-Library.Monad_Syntax"
begin

text \<open>
  What the components share: machine integers and byte strings, Go errors and panics,
  the little-endian integers of the standard library's \<open>encoding/binary\<close>, byte slices
  with a capacity, and the generic contract of a machine that keeps an invariant.

  Conventions. A Go function that can panic returns an \<open>option\<close>: \<open>None\<close> is the panic,
  which nothing in the program recovers. A Go \<open>error\<close> result is a value of type
  \<open>go_error option\<close> (\<open>None\<close> is \<open>nil\<close>), or of the sum type \<open>go_error + 'a\<close>
  where the function returns a value or an error. State that a method changes is passed
  in and returned.
\<close>

section \<open>Collections of rules\<close>

named_theorems go_defs \<open>definitions of small operations, unfolded together\<close>
named_theorems codec_simps \<open>round-trip equations of the encoders\<close>

section \<open>Machine integers, strings, errors\<close>

type_synonym byte = "8 word"
type_synonym u16 = "16 word"
type_synonym u32 = "32 word"
type_synonym u64 = "64 word"
type_synonym bytes = "byte list"

text \<open>A Go string is a sequence of bytes; \<open>lit\<close> reads an ASCII literal.\<close>

type_synonym gostring = bytes

definition lit :: "string \<Rightarrow> gostring" where
  "lit s = map of_char s"

lemma length_lit [simp]: "length (lit s) = length s"
  by (simp add: lit_def)

text \<open>
  Errors. The sentinel errors that the program compares, the error type it inspects
  (\<open>Execution\<close>), the errors of the standard library, and every other error by its text.
\<close>

datatype go_error =
    ErrNotPlayer
  | ErrGameNotStart
  | ErrUserNotFound
  | ErrWrongPassword
  | ErrClosed
  | ErrEOF
  | ErrUnexpectedEOF
  | ErrIO
  | ErrText string
  | Execution nat int gostring

text \<open>The panic of a run-time check: index, slice bounds, nil dereference, type assertion.\<close>

abbreviation (input) panic :: "'a option" where
  "panic \<equiv> None"

text \<open>A checked index: Go panics where the index is out of range.\<close>

definition at_idx :: "'a list \<Rightarrow> int \<Rightarrow> 'a option" where
  "at_idx xs i = (if 0 \<le> i \<and> i < int (length xs) then Some (xs ! nat i) else panic)"

definition set_idx :: "'a list \<Rightarrow> int \<Rightarrow> 'a \<Rightarrow> 'a list option" where
  "set_idx xs i v = (if 0 \<le> i \<and> i < int (length xs) then Some (xs[nat i := v]) else panic)"

lemma at_idx_in [simp]: "0 \<le> i \<Longrightarrow> i < int (length xs) \<Longrightarrow> at_idx xs i = Some (xs ! nat i)"
  by (simp add: at_idx_def)

lemma set_idx_in [simp]:
  "0 \<le> i \<Longrightarrow> i < int (length xs) \<Longrightarrow> set_idx xs i v = Some (xs[nat i := v])"
  by (simp add: set_idx_def)

section \<open>Little-endian integers\<close>

text \<open>\<open>binary.LittleEndian\<close> at any width: \<open>n\<close> bytes, the least significant first.\<close>

fun le_put :: "nat \<Rightarrow> 'a::len word \<Rightarrow> bytes" where
  "le_put 0 v = []"
| "le_put (Suc n) v = ucast v # le_put n (drop_bit 8 v)"

fun le_get :: "bytes \<Rightarrow> 'a::len word" where
  "le_get [] = 0"
| "le_get (b # bs) = or (ucast b) (push_bit 8 (le_get bs))"

lemma length_le_put [simp]: "length (le_put n v) = n"
  by (induction n arbitrary: v) auto

lemma le_get_put_take: "le_get (le_put n (v :: 'a::len word)) = take_bit (8 * n) v"
proof (induction n arbitrary: v)
  case 0
  then show ?case by simp
next
  case (Suc n)
  show ?case
    by (rule bit_eqI) (auto simp: Suc.IH bit_simps not_less)
qed

lemma le_get_put [codec_simps]:
  "LENGTH('a) \<le> 8 * n \<Longrightarrow> le_get (le_put n (v :: 'a::len word)) = v"
  by (simp add: le_get_put_take take_bit_word_eq_self)

lemma bit_le_get_length: "bit (le_get bs :: 'a::len word) n \<Longrightarrow> n < 8 * length bs"
proof (induction bs arbitrary: n)
  case Nil
  then show ?case by simp
next
  case (Cons b bs)
  from Cons.prems have "bit b n \<or> 8 \<le> n \<and> bit (le_get bs :: 'a word) (n - 8)"
    by (auto simp: bit_simps)
  then show ?case
    using Cons.IH [of "n - 8"] bit_imp_le_length [of b n] by auto
qed

lemma le_put_get [codec_simps]:
  "8 * length bs \<le> LENGTH('a) \<Longrightarrow> le_put (length bs) (le_get bs :: 'a::len word) = bs"
proof (induction bs)
  case Nil
  then show ?case by simp
next
  case (Cons b bs)
  have lo: "ucast (or (ucast b) (push_bit 8 (le_get bs)) :: 'a word) = b"
    using Cons.prems by (intro bit_word_eqI) (auto simp: bit_simps)
  have hi: "drop_bit 8 (or (ucast b) (push_bit 8 (le_get bs)) :: 'a word) = le_get bs"
    using Cons.prems by (intro bit_word_eqI) (auto simp: bit_simps dest: bit_le_get_length bit_imp_le_length)
  show ?case using Cons lo hi by simp
qed

section \<open>Runs of a machine\<close>

text \<open>
  A component that is driven by events is a step function that may panic. \<open>run\<close> feeds it
  a list of events and stops at the first panic.
\<close>

fun run :: "('e \<Rightarrow> 's \<Rightarrow> 's option) \<Rightarrow> 'e list \<Rightarrow> 's \<Rightarrow> 's option" where
  "run step [] s = Some s"
| "run step (e # es) s = (case step e s of None \<Rightarrow> panic | Some s' \<Rightarrow> run step es s')"

lemma run_append:
  "run step (es @ es') s = (case run step es s of None \<Rightarrow> panic | Some s' \<Rightarrow> run step es' s')"
  by (induction es arbitrary: s) (auto split: option.splits)

text \<open>
  The contract of a component whose operations keep an invariant: the invariant holds at
  the start, and in a state that satisfies it no admissible event panics and the invariant
  holds again. Then no run of admissible events panics.
\<close>

locale invariant_machine =
  fixes start :: "'s \<Rightarrow> bool"
    and step :: "'e \<Rightarrow> 's \<Rightarrow> 's option"
    and admissible :: "'e \<Rightarrow> bool"
    and inv :: "'s \<Rightarrow> bool"
  assumes start_inv: "start s \<Longrightarrow> inv s"
    and step_inv: "inv s \<Longrightarrow> admissible e \<Longrightarrow> \<exists>s'. step e s = Some s' \<and> inv s'"
begin

lemma run_from_inv:
  "inv s \<Longrightarrow> list_all admissible es \<Longrightarrow> \<exists>s'. run step es s = Some s' \<and> inv s'"
proof (induction es arbitrary: s)
  case Nil
  then show ?case by simp
next
  case (Cons e es)
  then obtain s1 where "step e s = Some s1" "inv s1"
    using step_inv by fastforce
  with Cons show ?case by simp
qed

lemma run_safe:
  "start s \<Longrightarrow> list_all admissible es \<Longrightarrow> \<exists>s'. run step es s = Some s' \<and> inv s'"
  by (blast intro: start_inv run_from_inv)

lemma run_inv: "inv s \<Longrightarrow> list_all admissible es \<Longrightarrow> run step es s = Some s' \<Longrightarrow> inv s'"
  using run_from_inv by fastforce

end

end
