(* ===== verification/Chess.thy ===== *)
theory Chess
  imports Prelude
begin

text \<open>
  \<open>backend/game/chess.go\<close>: the 15 by 15 board, the record of moves and the cursor, with
  the operations Init, WhoseTurn, Stone, DidYouWin, Regret and GetRecords. Arrays are lists
  of the array's length and every index of the source is checked, so an index out of range
  is the panic \<open>None\<close>. The lemmas show that the operations never panic on a board that the
  operations built, that a stone goes exactly where the move says, that the win check finds
  every line of five, and what taking a move back leaves on the board.
\<close>

section \<open>State and operations\<close>

definition SPACE :: byte where "SPACE = 0xFF"
definition BLACK :: byte where "BLACK = 0x00"
definition WHITE :: byte where "WHITE = 0x01"

lemmas colour_defs = SPACE_def BLACK_def WHITE_def

record chess =
  board :: "byte list list"
  records :: "byte list"
  cursor :: int

text \<open>The zero value \<open>Chess{}\<close> that Go gives a fresh struct.\<close>

definition Chess_zero :: chess where
  "Chess_zero = \<lparr>board = replicate 15 (replicate 15 0), records = replicate 225 0, cursor = 0\<rparr>"

definition Chess_Init :: "chess \<Rightarrow> chess" where
  "Chess_Init chess = chess\<lparr>cursor := 0, board := map (map (\<lambda>_. SPACE)) (board chess)\<rparr>"

text \<open>
  Go's \<open>%\<close> truncates towards zero; the cursor is never negative, where it agrees with
  \<open>mod\<close>. The conversion to \<open>byte\<close> keeps the low eight bits.
\<close>

definition go_rem :: "int \<Rightarrow> int \<Rightarrow> int" where
  "go_rem a b = sgn a * (\<bar>a\<bar> mod \<bar>b\<bar>)"

definition WhoseTurn :: "chess \<Rightarrow> byte" where
  "WhoseTurn chess = word_of_int (go_rem (cursor chess) 2)"

definition parseCoor :: "byte \<Rightarrow> int \<times> int" where
  "parseCoor coor = (uint (and coor 0x0F), uint (and (drop_bit 4 coor) 0x0F))"

definition isVaildCoor :: "int \<Rightarrow> int \<Rightarrow> bool" where
  "isVaildCoor r c \<longleftrightarrow> 0 \<le> r \<and> r < 15 \<and> 0 \<le> c \<and> c < 15"

text \<open>The test helper that builds the coordinate byte.\<close>

definition encodeCoor :: "int \<Rightarrow> int \<Rightarrow> byte" where
  "encodeCoor r c =
     (let coor = word_of_int (and c 0x0F);
          coor = push_bit 4 coor
      in or coor (word_of_int (and r 0x0F)))"

definition board_get :: "chess \<Rightarrow> int \<Rightarrow> int \<Rightarrow> byte option" where
  "board_get chess r c = Option.bind (at_idx (board chess) r) (\<lambda>row. at_idx row c)"

definition board_set :: "chess \<Rightarrow> int \<Rightarrow> int \<Rightarrow> byte \<Rightarrow> chess option" where
  "board_set chess r c v = do {
     row \<leftarrow> at_idx (board chess) r;
     row' \<leftarrow> set_idx row c v;
     b' \<leftarrow> set_idx (board chess) r row';
     Some (chess\<lparr>board := b'\<rparr>)
   }"

definition Chess_Stone :: "int \<Rightarrow> byte \<Rightarrow> chess \<Rightarrow> (go_error option \<times> chess) option" where
  "Chess_Stone move coor chess =
     (if move \<noteq> cursor chess then Some (Some (ErrText ''move number is wrong''), chess)
      else let (r, c) = parseCoor coor in
      if \<not> isVaildCoor r c then Some (Some (ErrText ''stone out of bounds''), chess)
      else do {
        v \<leftarrow> board_get chess r c;
        if v \<noteq> SPACE then Some (Some (ErrText ''there is already a chess piece here''), chess)
        else do {
          rec \<leftarrow> set_idx (records chess) (cursor chess) coor;
          let chess = chess\<lparr>records := rec\<rparr>;
          chess \<leftarrow> board_set chess r c (WhoseTurn chess);
          Some (None, chess\<lparr>cursor := cursor chess + 1\<rparr>)
        }
      })"

definition dr :: "int list" where "dr = [0, 1, 1, 1]"
definition dc :: "int list" where "dc = [1, 1, 0, -1]"

text \<open>
  One of the two inner loops of DidYouWin: \<open>js\<close> are the values \<open>j\<close> takes, the result is the
  number of stones counted before the break. The condition is evaluated left to right, so
  the board is read only for a valid coordinate.
\<close>

fun count_dir :: "chess \<Rightarrow> int \<Rightarrow> int \<Rightarrow> int \<Rightarrow> int \<Rightarrow> int list \<Rightarrow> int \<Rightarrow> int option" where
  "count_dir chess r c dri dci [] count = Some count"
| "count_dir chess r c dri dci (j # js) count =
     (let rr = r + j * dri; cc = c + j * dci in
      if \<not> isVaildCoor rr cc then Some count
      else do {
        a \<leftarrow> board_get chess r c;
        b \<leftarrow> board_get chess rr cc;
        if a \<noteq> b then Some count
        else count_dir chess r c dri dci js (count + 1)
      })"

fun win_loop :: "chess \<Rightarrow> int \<Rightarrow> int \<Rightarrow> (int \<times> int) list \<Rightarrow> bool option" where
  "win_loop chess r c [] = Some False"
| "win_loop chess r c ((dri, dci) # ds) = do {
     count \<leftarrow> count_dir chess r c dri dci [1, 2, 3, 4] 1;
     count \<leftarrow> count_dir chess r c dri dci [-1, -2, -3, -4] count;
     if count \<ge> 5 then Some True else win_loop chess r c ds
   }"

definition DidYouWin :: "chess \<Rightarrow> bool option" where
  "DidYouWin chess =
     (if cursor chess \<le> 0 then Some False
      else do {
        coor \<leftarrow> at_idx (records chess) (cursor chess - 1);
        let (r, c) = parseCoor coor;
        win_loop chess r c (zip dr dc)
      })"

definition Chess_Regret :: "byte \<Rightarrow> chess \<Rightarrow> go_error option \<times> chess" where
  "Chess_Regret color chess =
     (if color = WhoseTurn chess then
        (if cursor chess - 1 < 0 then (Some (ErrText ''can not regret''), chess)
         else (None, chess\<lparr>cursor := cursor chess - 1\<rparr>))
      else
        (if cursor chess - 2 < 0 then (Some (ErrText ''can not regret''), chess)
         else (None, chess\<lparr>cursor := cursor chess - 2\<rparr>)))"

definition GetRecords :: "chess \<Rightarrow> bytes option" where
  "GetRecords chess =
     (if 0 \<le> cursor chess \<and> cursor chess \<le> int (length (records chess))
      then Some (take (nat (cursor chess)) (records chess)) else panic)"

section \<open>Coordinates\<close>

lemma and_0xF: "uint (and b 0x0F :: byte) = uint b mod 16"
proof -
  have "and b 0x0F = take_bit 4 b"
    by (simp add: take_bit_eq_mask mask_eq_exp_minus_1)
  then show ?thesis
    by (simp add: unsigned_take_bit_eq take_bit_eq_mod uint_mod_distrib)
qed

lemma parseCoor_arith: "parseCoor b = (uint b mod 16, uint b div 16)"
proof -
  have "uint (drop_bit 4 b) = uint b div 16"
    by (simp add: drop_bit_eq_div uint_div_distrib)
  moreover have "uint b div 16 < 16"
    using uint_bounded [of b] by simp
  moreover have "0 \<le> uint b div 16"
    by (simp add: pos_imp_zdiv_nonneg_iff)
  ultimately show ?thesis by (simp add: parseCoor_def and_0xF mod_pos_pos_trivial)
qed

lemma parseCoor_inj: "parseCoor a = parseCoor b \<Longrightarrow> a = b"
  by (metis parseCoor_arith Pair_inject div_mult_mod_eq word_uint_eqI)

lemma parse_encode_all:
  "list_all (\<lambda>r. list_all (\<lambda>c. parseCoor (encodeCoor r c) = (r, c)) [0..15]) [0..15]"
  by code_simp

definition valid_coor :: "byte \<Rightarrow> bool" where
  "valid_coor coor = (let (r, c) = parseCoor coor in isVaildCoor r c)"

lemma valid_coorE:
  assumes "valid_coor coor"
  obtains r c where "parseCoor coor = (r, c)" "isVaildCoor r c"
  using assms by (auto simp: valid_coor_def Let_def split: prod.splits)

text \<open>There are 225 valid coordinate bytes, one for each field of the board.\<close>

lemma finite_valid_coor: "finite {b. valid_coor b}"
  by (rule finite_subset [OF subset_UNIV]) simp

lemma card_valid_coor: "card {b. valid_coor b} \<le> 225"
proof -
  have "parseCoor ` {b. valid_coor b} \<subseteq> {0..<15} \<times> {0..<15}"
    by (auto simp: isVaildCoor_def elim!: valid_coorE)
  moreover have "inj_on parseCoor {b. valid_coor b}"
    by (auto intro!: inj_onI parseCoor_inj)
  ultimately have "card {b. valid_coor b} \<le> card ({0..<15::int} \<times> {0..<15::int})"
    by (intro card_inj_on_le) auto
  then show ?thesis by (simp add: card_cartesian_product)
qed

section \<open>The board as a grid\<close>

definition chess_shape :: "chess \<Rightarrow> bool" where
  "chess_shape ch \<longleftrightarrow>
     length (board ch) = 15 \<and> (\<forall>row \<in> set (board ch). length row = 15) \<and> length (records ch) = 225"

definition cell_at :: "chess \<Rightarrow> int \<Rightarrow> int \<Rightarrow> byte" where
  "cell_at ch r c = board ch ! nat r ! nat c"

definition cell :: "chess \<Rightarrow> byte \<Rightarrow> byte" where
  "cell ch coor = (let (r, c) = parseCoor coor in cell_at ch r c)"

definition put :: "int \<Rightarrow> int \<Rightarrow> byte \<Rightarrow> chess \<Rightarrow> chess" where
  "put r c v ch = ch\<lparr>board := (board ch)[nat r := (board ch ! nat r)[nat c := v]]\<rparr>"

lemma put_frame [simp]: "records (put r c v ch) = records ch" "cursor (put r c v ch) = cursor ch"
  by (simp_all add: put_def)

lemma chess_shape_row: "chess_shape ch \<Longrightarrow> isVaildCoor r c \<Longrightarrow> length (board ch ! nat r) = 15"
  by (auto simp: chess_shape_def isVaildCoor_def)

lemma board_get_valid [simp]:
  "chess_shape ch \<Longrightarrow> isVaildCoor r c \<Longrightarrow> board_get ch r c = Some (cell_at ch r c)"
  using chess_shape_row [of ch r c]
  by (auto simp: board_get_def cell_at_def chess_shape_def isVaildCoor_def)

lemma board_set_valid [simp]:
  "chess_shape ch \<Longrightarrow> isVaildCoor r c \<Longrightarrow> board_set ch r c v = Some (put r c v ch)"
  using chess_shape_row [of ch r c]
  by (auto simp: board_set_def put_def chess_shape_def isVaildCoor_def)

lemma chess_shape_put [simp]:
  "chess_shape ch \<Longrightarrow> isVaildCoor r c \<Longrightarrow> chess_shape (put r c v ch)"
  using chess_shape_row [of ch r c]
  by (auto simp: chess_shape_def put_def dest!: set_update_subset_insert [THEN subsetD])

lemma cell_at_put:
  "chess_shape ch \<Longrightarrow> isVaildCoor r c \<Longrightarrow> isVaildCoor r' c' \<Longrightarrow>
   cell_at (put r c v ch) r' c' = (if r' = r \<and> c' = c then v else cell_at ch r' c')"
  using chess_shape_row [of ch r c]
  by (auto simp: cell_at_def put_def chess_shape_def isVaildCoor_def nth_list_update)

lemma cell_at_frame [simp]:
  "cell_at (ch\<lparr>records := x\<rparr>) r c = cell_at ch r c"
  "cell_at (ch\<lparr>cursor := n\<rparr>) r c = cell_at ch r c"
  "cell (ch\<lparr>records := x\<rparr>) b = cell ch b"
  "cell (ch\<lparr>cursor := n\<rparr>) b = cell ch b"
  by (simp_all add: cell_at_def cell_def)

lemma chess_shape_frame [simp]:
  "chess_shape (ch\<lparr>cursor := n\<rparr>) = chess_shape ch"
  "chess_shape ch \<Longrightarrow> length x = 225 \<Longrightarrow> chess_shape (ch\<lparr>records := x\<rparr>)"
  by (simp_all add: chess_shape_def)

section \<open>Well-formed games\<close>

text \<open>
  The record up to the cursor: the moves that stand. A game is well formed when the moves
  that stand are distinct valid coordinates that carry a stone, and every field of the
  board is empty or carries a stone. The board may carry stones that the record does not
  list, because taking a move back only moves the cursor.
\<close>

definition standing :: "chess \<Rightarrow> byte list" where
  "standing ch = take (nat (cursor ch)) (records ch)"

definition chess_ok :: "chess \<Rightarrow> bool" where
  "chess_ok ch \<longleftrightarrow>
     chess_shape ch \<and> 0 \<le> cursor ch \<and> cursor ch \<le> 225 \<and> distinct (standing ch) \<and>
     (\<forall>b \<in> set (standing ch). valid_coor b \<and> cell ch b \<noteq> SPACE) \<and>
     (\<forall>r c. isVaildCoor r c \<longrightarrow> cell_at ch r c \<in> {SPACE, BLACK, WHITE})"

lemma chess_okD:
  assumes "chess_ok ch"
  shows chess_ok_shape: "chess_shape ch"
    and chess_ok_cursor: "0 \<le> cursor ch" "cursor ch \<le> 225"
    and chess_ok_distinct: "distinct (standing ch)"
    and chess_ok_standing: "b \<in> set (standing ch) \<Longrightarrow> valid_coor b \<and> cell ch b \<noteq> SPACE"
    and chess_ok_cell: "isVaildCoor r c \<Longrightarrow> cell_at ch r c \<in> {SPACE, BLACK, WHITE}"
  using assms by (auto simp: chess_ok_def)

lemma length_standing: "chess_ok ch \<Longrightarrow> length (standing ch) = nat (cursor ch)"
  by (auto simp: chess_ok_def chess_shape_def standing_def)

lemma WhoseTurn_parity:
  "0 \<le> cursor ch \<Longrightarrow> WhoseTurn ch = (if even (cursor ch) then BLACK else WHITE)"
  by (auto simp: WhoseTurn_def go_rem_def colour_defs sgn_if even_iff_mod_2_eq_zero
      odd_iff_mod_2_eq_one)

lemma WhoseTurn_stone:
  "0 \<le> cursor ch \<Longrightarrow> WhoseTurn ch \<in> {BLACK, WHITE}"
  "0 \<le> cursor ch \<Longrightarrow> WhoseTurn ch \<noteq> SPACE"
  by (simp_all add: WhoseTurn_parity colour_defs)

text \<open>An empty field means that a move is still free: the record is never full then.\<close>

lemma free_cell_cursor:
  assumes ok: "chess_ok ch" and b: "valid_coor b" "cell ch b = SPACE"
  shows "cursor ch < 225"
proof -
  have "b \<notin> set (standing ch)"
    using chess_ok_standing [OF ok] b by blast
  then have "card (insert b (set (standing ch))) = Suc (nat (cursor ch))"
    using chess_ok_distinct [OF ok] length_standing [OF ok] by (simp add: distinct_card)
  moreover have "card (insert b (set (standing ch))) \<le> card {b. valid_coor b}"
    using chess_ok_standing [OF ok] b finite_valid_coor by (intro card_mono) auto
  ultimately show ?thesis using card_valid_coor by linarith
qed

section \<open>Placing a stone\<close>

text \<open>What a successful Stone does to the game.\<close>

definition place :: "byte \<Rightarrow> chess \<Rightarrow> chess" where
  "place coor ch =
     (let (r, c) = parseCoor coor
      in (put r c (WhoseTurn ch) ch)
           \<lparr>records := (records ch)[nat (cursor ch) := coor], cursor := cursor ch + 1\<rparr>)"

lemma Chess_Stone_spec:
  assumes ok: "chess_ok ch"
  shows "Chess_Stone move coor ch = Some
    (if move \<noteq> cursor ch then (Some (ErrText ''move number is wrong''), ch)
     else if \<not> valid_coor coor then (Some (ErrText ''stone out of bounds''), ch)
     else if cell ch coor \<noteq> SPACE
       then (Some (ErrText ''there is already a chess piece here''), ch)
     else (None, place coor ch))"
proof (cases "valid_coor coor")
  case True
  then obtain r c where rc: "parseCoor coor = (r, c)" "isVaildCoor r c"
    by (rule valid_coorE)
  note shape = chess_ok_shape [OF ok]
  have "cell ch coor = SPACE \<Longrightarrow> cursor ch < int (length (records ch))"
    using free_cell_cursor [OF ok True] shape by (simp add: chess_shape_def)
  moreover have "length (records ch) = 225" using shape by (simp add: chess_shape_def)
  ultimately show ?thesis
    using True rc shape chess_ok_cursor [OF ok]
    by (auto simp: Chess_Stone_def place_def cell_def put_def WhoseTurn_def)
next
  case False
  then show ?thesis
    by (auto simp: Chess_Stone_def valid_coor_def split: prod.splits)
qed

lemma place_frame [simp]:
  "cursor (place coor ch) = cursor ch + 1"
  "records (place coor ch) = (records ch)[nat (cursor ch) := coor]"
  by (simp_all add: place_def Let_def split: prod.splits)

lemma place_shape:
  "chess_shape ch \<Longrightarrow> valid_coor coor \<Longrightarrow> chess_shape (place coor ch)"
proof (elim valid_coorE)
  fix r c assume shape: "chess_shape ch" and "parseCoor coor = (r, c)" "isVaildCoor r c"
  moreover have "length (records ch) = 225" using shape by (simp add: chess_shape_def)
  ultimately show ?thesis by (simp add: place_def)
qed

lemma cell_at_place:
  assumes "chess_shape ch" "parseCoor coor = (r, c)" "isVaildCoor r c" "isVaildCoor r' c'"
  shows "cell_at (place coor ch) r' c' =
    (if r' = r \<and> c' = c then WhoseTurn ch else cell_at ch r' c')"
  using assms by (simp add: place_def cell_at_put)

lemma cell_place:
  assumes "chess_shape ch" "valid_coor coor" "valid_coor b"
  shows "cell (place coor ch) b = (if b = coor then WhoseTurn ch else cell ch b)"
proof -
  obtain r c where rc: "parseCoor coor = (r, c)" "isVaildCoor r c"
    using assms(2) by (rule valid_coorE)
  obtain r' c' where rc': "parseCoor b = (r', c')" "isVaildCoor r' c'"
    using assms(3) by (rule valid_coorE)
  have "r' = r \<and> c' = c \<longleftrightarrow> b = coor"
    using rc rc' parseCoor_inj by auto
  then show ?thesis
    using cell_at_place [OF assms(1) rc rc'(2)] rc rc' by (simp add: cell_def)
qed

lemma standing_place:
  assumes "chess_ok ch" "cursor ch < 225"
  shows "standing (place coor ch) = standing ch @ [coor]"
proof -
  have "nat (cursor ch) < length (records ch)"
    using assms by (auto simp: chess_ok_def chess_shape_def)
  then show ?thesis
    using chess_ok_cursor [OF assms(1)]
    by (simp add: standing_def nat_add_distrib take_Suc_conv_app_nth)
qed

lemma place_ok:
  assumes ok: "chess_ok ch" and coor: "valid_coor coor" "cell ch coor = SPACE"
  shows "chess_ok (place coor ch)"
proof -
  note shape = chess_ok_shape [OF ok]
  note free = free_cell_cursor [OF ok coor]
  note st = standing_place [OF ok free]
  have fresh: "coor \<notin> set (standing ch)"
    using chess_ok_standing [OF ok] coor by blast
  obtain r c where rc: "parseCoor coor = (r, c)" "isVaildCoor r c"
    using coor(1) by (rule valid_coorE)
  have "\<forall>b \<in> set (standing (place coor ch)). valid_coor b \<and> cell (place coor ch) b \<noteq> SPACE"
    using chess_ok_standing [OF ok] coor shape WhoseTurn_stone(2) chess_ok_cursor [OF ok]
    by (auto simp: st cell_place)
  moreover have "\<forall>r' c'. isVaildCoor r' c' \<longrightarrow>
      cell_at (place coor ch) r' c' \<in> {SPACE, BLACK, WHITE}"
    using chess_ok_cell [OF ok] WhoseTurn_stone(1) chess_ok_cursor [OF ok] cell_at_place [OF shape rc]
    by simp
  ultimately show ?thesis
    using fresh free place_shape [OF shape coor(1)] chess_ok_cursor [OF ok] chess_ok_distinct [OF ok] st
    by (simp add: chess_ok_def)
qed

section \<open>Init, Regret and GetRecords\<close>

lemma Init_shape: "chess_shape ch \<Longrightarrow> chess_shape (Chess_Init ch)"
  by (auto simp: chess_shape_def Chess_Init_def)

lemma cell_Init:
  "chess_shape ch \<Longrightarrow> isVaildCoor r c \<Longrightarrow> cell_at (Chess_Init ch) r c = SPACE"
  using chess_shape_row [of ch r c]
  by (auto simp: chess_shape_def cell_at_def Chess_Init_def isVaildCoor_def)

lemma standing_Init [simp]: "standing (Chess_Init ch) = []"
  by (simp add: standing_def Chess_Init_def)

lemma Init_ok: "chess_shape ch \<Longrightarrow> chess_ok (Chess_Init ch)"
  by (auto simp: chess_ok_def Init_shape cell_Init) (simp_all add: Chess_Init_def)

lemma zero_shape: "chess_shape Chess_zero"
  by (simp add: chess_shape_def Chess_zero_def)

text \<open>Lowering the cursor keeps a game well formed: fewer moves stand, nothing else changes.\<close>

lemma standing_lower:
  "n \<le> cursor ch \<Longrightarrow> standing (ch\<lparr>cursor := n\<rparr>) = take (nat n) (standing ch)"
  by (simp add: standing_def min_absorb1 nat_mono)

lemma lower_ok:
  assumes "chess_ok ch" "0 \<le> n" "n \<le> cursor ch"
  shows "chess_ok (ch\<lparr>cursor := n\<rparr>)"
  using assms standing_lower [OF assms(3)]
  by (auto simp: chess_ok_def dest: in_set_takeD)

lemma Regret_cursor:
  "Chess_Regret color ch =
     (let n = cursor ch - (if color = WhoseTurn ch then 1 else 2)
      in if n < 0 then (Some (ErrText ''can not regret''), ch) else (None, ch\<lparr>cursor := n\<rparr>))"
  by (simp add: Chess_Regret_def)

lemma Regret_ok: "chess_ok ch \<Longrightarrow> chess_ok (snd (Chess_Regret color ch))"
  by (auto simp: Regret_cursor Let_def lower_ok)

lemma GetRecords_ok: "chess_ok ch \<Longrightarrow> GetRecords ch = Some (standing ch)"
  by (auto simp: GetRecords_def standing_def chess_ok_def chess_shape_def)

section \<open>A game as a machine\<close>

datatype chess_event =
    EvInit
  | EvStone int byte
  | EvRegret byte
  | EvWinCheck
  | EvRecords

fun chess_step :: "chess_event \<Rightarrow> chess \<Rightarrow> chess option" where
  "chess_step EvInit ch = Some (Chess_Init ch)"
| "chess_step (EvStone move coor) ch = map_option snd (Chess_Stone move coor ch)"
| "chess_step (EvRegret color) ch = Some (snd (Chess_Regret color ch))"
| "chess_step EvWinCheck ch = map_option (\<lambda>_. ch) (DidYouWin ch)"
| "chess_step EvRecords ch = map_option (\<lambda>_. ch) (GetRecords ch)"

section \<open>The win check\<close>

text \<open>
  A line of five stones of colour \<open>v\<close> from \<open>(r, c)\<close> in a direction of the source's table.
\<close>

definition five_at :: "chess \<Rightarrow> byte \<Rightarrow> int \<Rightarrow> int \<Rightarrow> int \<times> int \<Rightarrow> bool" where
  "five_at ch v r c d \<longleftrightarrow>
     (\<forall>i \<in> {0, 1, 2, 3, 4}. isVaildCoor (r + i * fst d) (c + i * snd d) \<and>
        cell_at ch (r + i * fst d) (c + i * snd d) = v)"

definition has_five :: "chess \<Rightarrow> byte \<Rightarrow> bool" where
  "has_five ch v \<longleftrightarrow> (\<exists>r c. \<exists>d \<in> set (zip dr dc). five_at ch v r c d)"

text \<open>A line of five of the stone's own colour that runs through \<open>(r, c)\<close>.\<close>

definition five_through :: "chess \<Rightarrow> int \<Rightarrow> int \<Rightarrow> int \<times> int \<Rightarrow> bool" where
  "five_through ch r c d \<longleftrightarrow>
     (\<exists>k \<in> {0, 1, 2, 3, 4}. five_at ch (cell_at ch r c) (r - k * fst d) (c - k * snd d) d)"

definition same :: "chess \<Rightarrow> int \<Rightarrow> int \<Rightarrow> int \<times> int \<Rightarrow> int \<Rightarrow> bool" where
  "same ch r c d j \<longleftrightarrow>
     isVaildCoor (r + j * fst d) (c + j * snd d) \<and>
     cell_at ch (r + j * fst d) (c + j * snd d) = cell_at ch r c"

lemma count_dir_takeWhile:
  assumes "chess_shape ch" "isVaildCoor r c"
  shows "count_dir ch r c (fst d) (snd d) js n = Some (n + int (length (takeWhile (same ch r c d) js)))"
  using assms by (induction js arbitrary: n) (auto simp: same_def Let_def)

lemma same_0 [simp]: "isVaildCoor r c \<Longrightarrow> same ch r c d 0"
  by (simp add: same_def)

lemma five_through_same:
  "five_through ch r c d \<longleftrightarrow>
     (\<exists>k \<in> {0, 1, 2, 3, 4}. \<forall>i \<in> {0, 1, 2, 3, 4}. same ch r c d (i - k))"
  by (simp add: five_through_def five_at_def same_def algebra_simps)

text \<open>Counting both ways and adding one reaches five exactly when five in a row exist.\<close>

lemma window_count:
  assumes "P (0::int)"
  shows "5 \<le> 1 + int (length (takeWhile P [1, 2, 3, 4])) + int (length (takeWhile P [-1, -2, -3, -4]))
    \<longleftrightarrow> (\<exists>k \<in> {0, 1, 2, 3, 4}. \<forall>i \<in> {0, 1, 2, 3, 4}. P (i - k))"
  using assms by simp

lemma win_loop_spec:
  assumes "chess_shape ch" "isVaildCoor r c"
  shows "win_loop ch r c ds = Some (\<exists>d \<in> set ds. five_through ch r c d)"
proof (induction ds)
  case Nil
  then show ?case by simp
next
  case (Cons d ds)
  obtain a b where d: "d = (a, b)" by (cases d)
  have "win_loop ch r c (d # ds) =
      (if 5 \<le> 1 + int (length (takeWhile (same ch r c d) [1, 2, 3, 4]))
             + int (length (takeWhile (same ch r c d) [-1, -2, -3, -4]))
       then Some True else win_loop ch r c ds)"
    using count_dir_takeWhile [OF assms, of d]
    by (simp add: d del: count_dir.simps takeWhile.simps)
  also have "\<dots> = Some (\<exists>d \<in> set (d # ds). five_through ch r c d)"
    unfolding window_count [of "same ch r c d", OF same_0 [OF assms(2)]] five_through_same [symmetric]
      Cons.IH by simp
  finally show ?case .
qed

text \<open>The last move that stands, which the win check looks at.\<close>

lemma last_standing:
  assumes "chess_ok ch" "0 < cursor ch"
  shows "at_idx (records ch) (cursor ch - 1) = Some (last (standing ch))"
    and "last (standing ch) \<in> set (standing ch)"
proof -
  have len: "length (standing ch) = nat (cursor ch)" "length (records ch) = 225"
    using length_standing [OF assms(1)] assms(1) by (auto simp: chess_ok_def chess_shape_def)
  then have ne: "standing ch \<noteq> []" using assms by auto
  then show "last (standing ch) \<in> set (standing ch)" by simp
  have "last (standing ch) = records ch ! nat (cursor ch - 1)"
    using ne len assms(2) by (simp add: last_conv_nth standing_def nat_diff_distrib)
  then show "at_idx (records ch) (cursor ch - 1) = Some (last (standing ch))"
    using len assms chess_ok_cursor(2) [OF assms(1)] by simp
qed

lemma DidYouWin_spec:
  assumes "chess_ok ch"
  shows "DidYouWin ch = Some
    (0 < cursor ch \<and>
     (let (r, c) = parseCoor (last (standing ch)) in \<exists>d \<in> set (zip dr dc). five_through ch r c d))"
proof (cases "0 < cursor ch")
  case True
  have "valid_coor (last (standing ch))"
    using last_standing(2) [OF assms True] chess_ok_standing [OF assms] by blast
  then obtain r c where rc: "parseCoor (last (standing ch)) = (r, c)" "isVaildCoor r c"
    by (rule valid_coorE)
  then show ?thesis
    using True last_standing(1) [OF assms True] win_loop_spec [OF chess_ok_shape [OF assms] rc(2)]
    by (simp add: DidYouWin_def)
next
  case False
  then show ?thesis by (simp add: DidYouWin_def)
qed

lemma DidYouWin_total: "chess_ok ch \<Longrightarrow> \<exists>b. DidYouWin ch = Some b"
  by (simp add: DidYouWin_spec)

text \<open>The machine keeps well-formedness, and no event of it panics.\<close>

lemma chess_step_ok: "chess_ok ch \<Longrightarrow> \<exists>ch'. chess_step e ch = Some ch' \<and> chess_ok ch'"
  by (cases e)
    (auto simp: Init_ok chess_ok_shape Chess_Stone_spec place_ok Regret_ok DidYouWin_spec
      GetRecords_ok)

interpretation chess_machine: invariant_machine
  "\<lambda>ch. ch = Chess_Init Chess_zero" chess_step "\<lambda>_. True" chess_ok
  by unfold_locales (auto simp: Init_ok zero_shape intro: chess_step_ok)

section \<open>Every line of five is found\<close>

lemma five_at_cells:
  "five_at ch v r c d \<Longrightarrow> i \<in> {0, 1, 2, 3, 4} \<Longrightarrow>
   isVaildCoor (r + i * fst d) (c + i * snd d) \<and> cell_at ch (r + i * fst d) (c + i * snd d) = v"
  by (auto simp: five_at_def)

text \<open>A stone on an empty field leaves the lines that exist.\<close>

lemma five_at_place_mono:
  assumes "chess_shape ch" "parseCoor coor = (r0, c0)" "isVaildCoor r0 c0"
    and "cell_at ch r0 c0 = SPACE" "v \<noteq> SPACE" "five_at ch v r c d"
  shows "five_at (place coor ch) v r c d"
  unfolding five_at_def
proof (intro ballI conjI)
  fix i :: int assume i: "i \<in> {0, 1, 2, 3, 4}"
  note cells = five_at_cells [OF assms(6) i]
  then show "isVaildCoor (r + i * fst d) (c + i * snd d)" by simp
  show "cell_at (place coor ch) (r + i * fst d) (c + i * snd d) = v"
    using cells cell_at_place [OF assms(1-3), of "r + i * fst d" "c + i * snd d"] assms(4,5) by auto
qed

text \<open>A line that is new runs through the field of the stone and has the stone's colour.\<close>

lemma five_at_place_new:
  assumes "chess_shape ch" "parseCoor coor = (r0, c0)" "isVaildCoor r0 c0"
    and "five_at (place coor ch) v r c d" "\<not> five_at ch v r c d"
  shows "v = WhoseTurn ch \<and> five_through (place coor ch) r0 c0 d"
proof -
  from assms(5) obtain i where i: "i \<in> {0, 1, 2, 3, 4}"
    "\<not> (isVaildCoor (r + i * fst d) (c + i * snd d) \<and> cell_at ch (r + i * fst d) (c + i * snd d) = v)"
    unfolding five_at_def by blast
  note cells = five_at_cells [OF assms(4) i(1)]
  have here: "r + i * fst d = r0" "c + i * snd d = c0"
    using cells i(2) cell_at_place [OF assms(1-3), of "r + i * fst d" "c + i * snd d"]
    by (auto split: if_splits)
  have v: "cell_at (place coor ch) r0 c0 = v" using cells here by simp
  moreover have "v = WhoseTurn ch"
    using v cell_at_place [OF assms(1-3) assms(3)] by simp
  moreover have "r0 - i * fst d = r" "c0 - i * snd d = c" using here by auto
  ultimately show ?thesis
    using assms(4) i(1) unfolding five_through_def by metis
qed

lemma last_place:
  "chess_ok ch \<Longrightarrow> cursor ch < 225 \<Longrightarrow> last (standing (place coor ch)) = coor"
  by (simp add: standing_place)

lemma has_five_place:
  assumes ok: "chess_ok ch" and coor: "valid_coor coor" "cell ch coor = SPACE"
    and v: "v \<noteq> SPACE"
  shows "has_five (place coor ch) v \<longleftrightarrow>
    has_five ch v \<or> (v = WhoseTurn ch \<and> DidYouWin (place coor ch) = Some True)"
proof -
  obtain r0 c0 where rc: "parseCoor coor = (r0, c0)" "isVaildCoor r0 c0"
    using coor(1) by (rule valid_coorE)
  note shape = chess_ok_shape [OF ok]
  have win: "DidYouWin (place coor ch) = Some True \<longleftrightarrow>
      (\<exists>d \<in> set (zip dr dc). five_through (place coor ch) r0 c0 d)"
    using DidYouWin_spec [OF place_ok [OF ok coor]] last_place [OF ok free_cell_cursor [OF ok coor]]
      rc chess_ok_cursor(1) [OF ok] by simp
  have space: "cell_at ch r0 c0 = SPACE" using coor(2) rc(1) by (simp add: cell_def)
  have own: "cell_at (place coor ch) r0 c0 = WhoseTurn ch"
    using cell_at_place [OF shape rc rc(2)] by simp
  show ?thesis
  proof
    assume "has_five (place coor ch) v"
    then show "has_five ch v \<or> (v = WhoseTurn ch \<and> DidYouWin (place coor ch) = Some True)"
      using five_at_place_new [OF shape rc] win unfolding has_five_def by blast
  next
    assume "has_five ch v \<or> (v = WhoseTurn ch \<and> DidYouWin (place coor ch) = Some True)"
    then show "has_five (place coor ch) v"
      using five_at_place_mono [OF shape rc space v] win own
      unfolding has_five_def five_through_def by metis
  qed
qed

section \<open>The abstract game: the list of moves\<close>

text \<open>
  The specification of the board: the state is the list of moves, and a move is accepted
  when its number is the number of moves so far, it lies on the board and no move was made
  there. The colours alternate, black first.
\<close>

definition stone_abs :: "int \<Rightarrow> byte \<Rightarrow> byte list \<Rightarrow> go_error option \<times> byte list" where
  "stone_abs move coor ms =
     (if move \<noteq> int (length ms) then (Some (ErrText ''move number is wrong''), ms)
      else if \<not> valid_coor coor then (Some (ErrText ''stone out of bounds''), ms)
      else if coor \<in> set ms then (Some (ErrText ''there is already a chess piece here''), ms)
      else (None, ms @ [coor]))"

definition in_sync :: "chess \<Rightarrow> bool" where
  "in_sync ch \<longleftrightarrow>
     chess_ok ch \<and>
     (\<forall>i < length (standing ch). cell ch (standing ch ! i) = (if even i then BLACK else WHITE)) \<and>
     (\<forall>b. valid_coor b \<longrightarrow> b \<notin> set (standing ch) \<longrightarrow> cell ch b = SPACE)"

lemma in_sync_Init: "chess_shape ch \<Longrightarrow> in_sync (Chess_Init ch)"
  by (auto simp: in_sync_def Init_ok cell_def elim!: valid_coorE intro: cell_Init)

lemma in_sync_cell:
  "in_sync ch \<Longrightarrow> valid_coor b \<Longrightarrow> cell ch b = SPACE \<longleftrightarrow> b \<notin> set (standing ch)"
  by (auto simp: in_sync_def dest: chess_ok_standing)

lemma in_sync_place:
  assumes sync: "in_sync ch" and coor: "valid_coor coor" "cell ch coor = SPACE"
  shows "in_sync (place coor ch)"
proof -
  have ok: "chess_ok ch" using sync by (simp add: in_sync_def)
  note st = standing_place [OF ok free_cell_cursor [OF ok coor]]
  note cp = cell_place [OF chess_ok_shape [OF ok] coor(1)]
  have fresh: "coor \<notin> set (standing ch)" using in_sync_cell [OF sync coor(1)] coor(2) by simp
  have len: "int (length (standing ch)) = cursor ch"
    using length_standing [OF ok] chess_ok_cursor [OF ok] by simp
  have parity: "even (cursor ch) \<longleftrightarrow> even (length (standing ch))"
    by (simp flip: len)
  have "cell (place coor ch) ((standing ch @ [coor]) ! i) = (if even i then BLACK else WHITE)"
    if i: "i < Suc (length (standing ch))" for i
  proof (cases "i = length (standing ch)")
    case True
    then show ?thesis
      using parity coor(1) chess_ok_cursor [OF ok] WhoseTurn_parity [of ch] by (auto simp: cp)
  next
    case False
    then have lt: "i < length (standing ch)" using i by simp
    then have "standing ch ! i \<in> set (standing ch)" by simp
    then have "valid_coor (standing ch ! i)" "standing ch ! i \<noteq> coor"
      using chess_ok_standing [OF ok] fresh by auto
    then show ?thesis using sync lt by (simp add: cp nth_append in_sync_def)
  qed
  moreover have "cell (place coor ch) b = SPACE"
    if "valid_coor b" "b \<notin> set (standing ch @ [coor])" for b
    using that in_sync_cell [OF sync that(1)] by (simp add: cp)
  ultimately show ?thesis
    using place_ok [OF ok coor] by (simp add: in_sync_def st)
qed

lemma Stone_refines:
  assumes sync: "in_sync ch"
  shows "\<exists>e ch'. Chess_Stone move coor ch = Some (e, ch') \<and> in_sync ch' \<and>
    (e, standing ch') = stone_abs move coor (standing ch)"
proof -
  have ok: "chess_ok ch" using sync by (simp add: in_sync_def)
  have len: "int (length (standing ch)) = cursor ch"
    using length_standing [OF ok] chess_ok_cursor [OF ok] by simp
  show ?thesis
    using in_sync_cell [OF sync, of coor] in_sync_place [OF sync, of coor] sync
      standing_place [OF ok free_cell_cursor [OF ok], of coor coor]
    by (simp add: Chess_Stone_spec [OF ok] stone_abs_def len)
qed

section \<open>Taking moves back\<close>

lemma Regret_standing:
  assumes ok: "chess_ok ch"
  shows "Chess_Regret color ch =
    (let n = (if color = WhoseTurn ch then 1 else 2)
     in if length (standing ch) < n then (Some (ErrText ''can not regret''), ch)
        else (None, ch\<lparr>cursor := int (length (standing ch) - n)\<rparr>))"
proof -
  have len: "int (length (standing ch)) = cursor ch"
    using length_standing [OF ok] chess_ok_cursor [OF ok] by simp
  then have "standing ch = [] \<longleftrightarrow> cursor ch < 1" by (cases "standing ch") auto
  with len show ?thesis by (auto simp: Regret_cursor Let_def of_nat_diff)
qed

lemma cell_Regret: "cell (snd (Chess_Regret color ch)) b = cell ch b"
  by (simp add: Regret_cursor Let_def)

lemma taken_back_refused:
  assumes ok: "chess_ok ch" and reg: "Chess_Regret color ch = (None, ch')"
    and b: "b \<in> set (standing ch)"
  shows "Chess_Stone (cursor ch') b ch' =
    Some (Some (ErrText ''there is already a chess piece here''), ch')"
proof -
  have ok': "chess_ok ch'" using Regret_ok [OF ok, of color] reg by simp
  have "valid_coor b" "cell ch' b \<noteq> SPACE"
    using chess_ok_standing [OF ok b] cell_Regret [of color ch b] reg by auto
  then show ?thesis by (simp add: Chess_Stone_spec [OF ok'])
qed

section \<open>The game of the test suite\<close>

text \<open>\<open>TestGame\<close> of \<open>chess_test.go\<close>: twelve stones, the last of which wins.\<close>

definition test_moves :: "(int \<times> int) list" where
  "test_moves = [(1, 1), (1, 2), (2, 2), (3, 3), (3, 2), (4, 2), (2, 3), (2, 4), (1, 4), (1, 5), (0, 6), (5, 1)]"

definition test_events :: "nat \<Rightarrow> chess_event list" where
  "test_events n = map (\<lambda>(i, (r, c)). EvStone (int i) (encodeCoor r c))
     (take n (enumerate 0 test_moves))"

definition test_game :: "nat \<Rightarrow> chess" where
  "test_game n = the (run chess_step (test_events n) (Chess_Init Chess_zero))"

lemma test_game_ok: "chess_ok (test_game n)"
  using chess_machine.run_safe [of "Chess_Init Chess_zero" "test_events n"]
  by (auto simp: test_game_def list_all_iff)

lemma test_game_wins:
  "Chess_Stone 11 (encodeCoor 5 1) (test_game 11) = Some (None, test_game 12)"
  "DidYouWin (test_game 12) = Some True"
  "WhoseTurn (test_game 11) = WHITE"
  "standing (test_game 12) = [0x11, 0x21, 0x22, 0x33, 0x23, 0x24, 0x32, 0x42, 0x41, 0x51, 0x60, 0x15]"
  by code_simp+

section \<open>Properties\<close>

text \<open>
  Claim C9. Stone implements the abstract game: in a game whose board shows exactly the
  moves that stand, with alternating colours, Stone does not panic, returns the error of
  the specification or accepts the move, appends it to the record when it accepts it, and
  the board again shows exactly the moves that stand.
\<close>

theorem Stone_refines_abstract_game:
  assumes "in_sync ch"
  shows "\<exists>e ch'. Chess_Stone move coor ch = Some (e, ch') \<and> in_sync ch' \<and>
    (e, standing ch') = stone_abs move coor (standing ch)"
  by (rule Stone_refines [OF assms])

theorem Stone_refines_abstract_game_witness:
  "\<exists>e ch'. Chess_Stone 0 0x77 (Chess_Init Chess_zero) = Some (e, ch') \<and> in_sync ch' \<and>
    (e, standing ch') = stone_abs 0 0x77 (standing (Chess_Init Chess_zero))"
  by (rule Stone_refines_abstract_game) (rule in_sync_Init [OF zero_shape])

text \<open>
  Claim C10. The win check is complete and sound for whole boards: after an accepted stone
  there is a line of five of a colour exactly when there was one before, or the colour is
  that of the player who moved and DidYouWin reports a win.
\<close>

theorem DidYouWin_finds_every_new_five:
  assumes "chess_ok ch" "Chess_Stone move coor ch = Some (None, ch')" "v \<noteq> SPACE"
  shows "has_five ch' v \<longleftrightarrow> has_five ch v \<or> (v = WhoseTurn ch \<and> DidYouWin ch' = Some True)"
  using has_five_place [OF assms(1) _ _ assms(3), of coor] assms(2)
  by (auto simp: Chess_Stone_spec [OF assms(1)] split: if_splits)

theorem DidYouWin_finds_every_new_five_witness: "has_five (test_game 12) WHITE"
  using DidYouWin_finds_every_new_five [OF test_game_ok test_game_wins(1), of WHITE] test_game_wins
  by (simp add: colour_defs)

text \<open>
  Claim C27. DidYouWin looks exactly at the lines through the last move that stands: on a
  well-formed game it returns without a panic, and it reports a win exactly when a move
  stands and five stones of the last stone's colour lie in a row through its field, in one
  of the four directions.
\<close>

theorem DidYouWin_iff_five_through_last:
  assumes "chess_ok ch"
  shows "DidYouWin ch = Some (0 < cursor ch \<and>
    (let (r, c) = parseCoor (last (standing ch)) in \<exists>d \<in> set (zip dr dc). five_through ch r c d))"
  by (rule DidYouWin_spec [OF assms])

theorem DidYouWin_iff_five_through_last_witness:
  "\<exists>d \<in> set (zip dr dc). five_through (test_game 12) 5 1 d"
proof -
  have "parseCoor 0x15 = (5, 1)" by code_simp
  then show ?thesis
    using DidYouWin_iff_five_through_last [OF test_game_ok, of 12] test_game_wins by simp
qed

text \<open>
  Claim C28. No sequence of Init, Stone, Regret, DidYouWin and GetRecords calls on an
  initialised board panics, whatever the arguments: every array access is in bounds, and
  the game stays well formed (at most 225 moves stand, all on distinct fields).
\<close>

theorem chess_never_panics:
  "\<exists>ch. run chess_step es (Chess_Init Chess_zero) = Some ch \<and> chess_ok ch"
  by (rule chess_machine.run_safe) (simp_all add: list_all_iff)

text \<open>
  Claim C39. Regret takes back one move when the colour is the one to move and two
  otherwise, and refuses when fewer moves stand; but it leaves the stones on the board, so
  a field whose move was taken back refuses every later stone.
\<close>

theorem Regret_keeps_the_stones:
  assumes "chess_ok ch" "Chess_Regret color ch = (None, ch')"
  shows "standing ch' =
      take (length (standing ch) - (if color = WhoseTurn ch then 1 else 2)) (standing ch) \<and>
    (\<forall>b \<in> set (standing ch).
      Chess_Stone (cursor ch') b ch' =
        Some (Some (ErrText ''there is already a chess piece here''), ch'))"
proof (intro conjI ballI)
  let ?n = "if color = WhoseTurn ch then 1 else 2 :: nat"
  have "ch' = ch\<lparr>cursor := int (length (standing ch) - ?n)\<rparr>"
    using assms(2) by (auto simp: Regret_standing [OF assms(1)] Let_def of_nat_diff Suc_le_eq
        split: if_splits)
  moreover have "int (length (standing ch) - ?n) \<le> cursor ch"
    using length_standing [OF assms(1)] chess_ok_cursor [OF assms(1)] by linarith
  ultimately show "standing ch' = take (length (standing ch) - ?n) (standing ch)"
    by (simp only: standing_lower nat_int)
qed (rule taken_back_refused [OF assms])


theorem Regret_keeps_the_stones_witness:
  "standing (snd (Chess_Regret BLACK (test_game 12))) = take 11 (standing (test_game 12)) \<and>
   Chess_Stone 11 0x15 (snd (Chess_Regret BLACK (test_game 12))) =
     Some (Some (ErrText ''there is already a chess piece here''), snd (Chess_Regret BLACK (test_game 12)))"
proof -
  have r: "Chess_Regret BLACK (test_game 12) = (None, snd (Chess_Regret BLACK (test_game 12)))"
    and w: "BLACK = WhoseTurn (test_game 12)"
    and c: "cursor (snd (Chess_Regret BLACK (test_game 12))) = 11"
    by code_simp+
  show ?thesis
    using Regret_keeps_the_stones [OF test_game_ok r] c by (simp add: w [symmetric] test_game_wins(4))
qed

text \<open>
  The coordinate byte round trips: what the client packs into the two halves of
  the byte is what parseCoor unpacks, for every row and column below sixteen.
\<close>

theorem parseCoor_encodeCoor:
  assumes "0 \<le> r" "r < 16" "0 \<le> c" "c < 16"
  shows "parseCoor (encodeCoor r c) = (r, c)"
  using parse_encode_all assms by (simp add: list_all_iff)

theorem parseCoor_encodeCoor_witness: "parseCoor (encodeCoor 14 9) = (14, 9)"
  using parseCoor_encodeCoor [of 14 9] by simp

text \<open>
  Claim C40. After any sequence of operations GetRecords returns the moves that stand, and
  they are at most 225, so that the record always fits a one-byte length prefix.
\<close>

theorem GetRecords_fits_a_byte:
  assumes "run chess_step es (Chess_Init Chess_zero) = Some ch"
  shows "\<exists>ms. GetRecords ch = Some ms \<and> ms = standing ch \<and> length ms \<le> 225 \<and> distinct ms"
proof -
  have ok: "chess_ok ch"
    using chess_machine.run_inv [OF Init_ok [OF zero_shape] _ assms] by (simp add: list_all_iff)
  then show ?thesis
    using GetRecords_ok [OF ok] length_standing [OF ok] chess_okD [OF ok] by auto
qed

theorem GetRecords_fits_a_byte_witness:
  "\<exists>ms. GetRecords (test_game 12) = Some ms \<and> ms = standing (test_game 12) \<and>
    length ms \<le> 225 \<and> distinct ms"
  by (rule GetRecords_fits_a_byte [of "test_events 12"]) code_simp

end
