(* ===== verification/GameRoom.thy ===== *)
theory GameRoom
  imports Chess
begin

text \<open>
  \<open>backend/game/room.go\<close>: the two seats of a game, the pending requests (regret, tie,
  ready) by colour, and the game itself. A \<open>Player\<close> is an interface value that the code
  only compares: \<open>None\<close> is the nil interface, \<open>Some p\<close> the pointer \<open>p\<close>. The room of the
  room middleware embeds this struct, so the operations are stated on the record scheme and
  apply to the extended record as they are. The lemmas show the invariant that ties the
  pending colours to occupied seats, so that starting a game never meets an empty seat.
\<close>

section \<open>State and operations\<close>

type_synonym 'p player = "'p option"

record 'p game_room =
  WhitePlayer :: "'p option"
  BlackPlayer :: "'p option"
  RegretColor :: byte
  TieColor :: byte
  ReadyColor :: byte
  IsPlaying :: bool
  room_chess :: chess

definition game_NewRoom :: "'p game_room" where
  "game_NewRoom =
     \<lparr>WhitePlayer = None, BlackPlayer = None, RegretColor = SPACE, TieColor = SPACE,
      ReadyColor = SPACE, IsPlaying = False, room_chess = Chess_Init Chess_zero\<rparr>"

text \<open>Start logs both user names, which asserts that both players are user pointers.\<close>

definition Room_Start :: "('p, 'z) game_room_scheme \<Rightarrow> ('p, 'z) game_room_scheme option" where
  "Room_Start room =
     (let room = room\<lparr>room_chess := Chess_Init (room_chess room)\<rparr>;
          room = room\<lparr>IsPlaying := True\<rparr>
      in case BlackPlayer room of
           None \<Rightarrow> panic
         | Some b \<Rightarrow> (case WhitePlayer room of None \<Rightarrow> panic | Some w \<Rightarrow> Some room))"

definition Room_Join ::
  "'p player \<Rightarrow> ('p, 'z) game_room_scheme \<Rightarrow> go_error option \<times> ('p, 'z) game_room_scheme" where
  "Room_Join player room =
     (if BlackPlayer room = None then (None, room\<lparr>BlackPlayer := player\<rparr>)
      else if WhitePlayer room = None then (None, room\<lparr>WhitePlayer := player\<rparr>)
      else (Some (ErrText ''the room is full of players''), room))"

definition Room_Leave ::
  "'p player \<Rightarrow> ('p, 'z) game_room_scheme \<Rightarrow> go_error option \<times> ('p, 'z) game_room_scheme" where
  "Room_Leave player room =
     (let clear = (\<lambda>color room.
        (let room = (if RegretColor room = color then room\<lparr>RegretColor := SPACE\<rparr> else room);
             room = (if TieColor room = color then room\<lparr>TieColor := SPACE\<rparr> else room);
             room = (if ReadyColor room = color then room\<lparr>ReadyColor := SPACE\<rparr> else room)
         in (None, room\<lparr>IsPlaying := False\<rparr>)))
      in if player = BlackPlayer room then clear BLACK (room\<lparr>BlackPlayer := None\<rparr>)
         else if player = WhitePlayer room then clear WHITE (room\<lparr>WhitePlayer := None\<rparr>)
         else (Some ErrNotPlayer, room))"

definition Room_Ready ::
  "'p player \<Rightarrow> ('p, 'z) game_room_scheme \<Rightarrow>
   (byte \<times> bool \<times> go_error option) \<times> ('p, 'z) game_room_scheme" where
  "Room_Ready player room =
     (if player = BlackPlayer room then
        (if ReadyColor room = WHITE then ((BLACK, True, None), room\<lparr>ReadyColor := SPACE\<rparr>)
         else ((BLACK, False, None), room\<lparr>ReadyColor := BLACK\<rparr>))
      else if player = WhitePlayer room then
        (if ReadyColor room = BLACK then ((WHITE, True, None), room\<lparr>ReadyColor := SPACE\<rparr>)
         else ((WHITE, False, None), room\<lparr>ReadyColor := WHITE\<rparr>))
      else ((SPACE, False, Some ErrNotPlayer), room))"

definition PlayerColor :: "'p player \<Rightarrow> ('p, 'z) game_room_scheme \<Rightarrow> byte" where
  "PlayerColor player room =
     (if BlackPlayer room = player then BLACK
      else if WhitePlayer room = player then WHITE
      else SPACE)"

text \<open>Both requests fall through to the error after they recorded the colour.\<close>

definition Room_Regret ::
  "'p player \<Rightarrow> ('p, 'z) game_room_scheme \<Rightarrow> go_error option \<times> ('p, 'z) game_room_scheme" where
  "Room_Regret player room =
     (if RegretColor room \<noteq> SPACE then (Some (ErrText ''someone has regreted''), room)
      else let color = PlayerColor player room;
               room = (if color \<noteq> SPACE then room\<lparr>RegretColor := color\<rparr> else room)
           in (Some (ErrText ''wrong player''), room))"

definition Room_ReplyRegret ::
  "'p player \<Rightarrow> bool \<Rightarrow> ('p, 'z) game_room_scheme \<Rightarrow>
   go_error option \<times> ('p, 'z) game_room_scheme" where
  "Room_ReplyRegret player agree room =
     (if player = WhitePlayer room \<and> RegretColor room = BLACK then
        (let room = room\<lparr>RegretColor := SPACE\<rparr>;
             (err, chess) = Chess_Regret BLACK (room_chess room)
         in (err, room\<lparr>room_chess := chess\<rparr>))
      else if player = BlackPlayer room \<and> RegretColor room = WHITE then
        (let room = room\<lparr>RegretColor := SPACE\<rparr>;
             (err, chess) = Chess_Regret WHITE (room_chess room)
         in (err, room\<lparr>room_chess := chess\<rparr>))
      else (Some ErrNotPlayer, room))"

definition Room_Tie ::
  "'p player \<Rightarrow> ('p, 'z) game_room_scheme \<Rightarrow> go_error option \<times> ('p, 'z) game_room_scheme" where
  "Room_Tie player room =
     (if TieColor room \<noteq> SPACE then (Some (ErrText ''someone has regreted''), room)
      else let color = PlayerColor player room;
               room = (if color \<noteq> SPACE then room\<lparr>TieColor := color\<rparr> else room)
           in (Some (ErrText ''wrong player''), room))"

definition Opponent ::
  "'p player \<Rightarrow> ('p, 'z) game_room_scheme \<Rightarrow> 'p player \<times> go_error option" where
  "Opponent player room =
     (if BlackPlayer room = player then (WhitePlayer room, None)
      else if WhitePlayer room = player then (BlackPlayer room, None)
      else (None, Some ErrNotPlayer))"

definition PlayerCount :: "('p, 'z) game_room_scheme \<Rightarrow> int" where
  "PlayerCount room =
     (let playerCount = 0;
          playerCount = (if BlackPlayer room \<noteq> None then playerCount + 1 else playerCount);
          playerCount = (if WhitePlayer room \<noteq> None then playerCount + 1 else playerCount)
      in playerCount)"

section \<open>The invariant\<close>

text \<open>
  A pending request belongs to an occupied seat, a game in progress has two players, and
  the game is well formed.
\<close>

definition seated :: "('p, 'z) game_room_scheme \<Rightarrow> byte \<Rightarrow> bool" where
  "seated room color \<longleftrightarrow>
     color = SPACE \<or> color = BLACK \<and> BlackPlayer room \<noteq> None \<or> color = WHITE \<and> WhitePlayer room \<noteq> None"

definition room_ok :: "('p, 'z) game_room_scheme \<Rightarrow> bool" where
  "room_ok room \<longleftrightarrow>
     seated room (RegretColor room) \<and> seated room (TieColor room) \<and> seated room (ReadyColor room) \<and>
     (IsPlaying room \<longrightarrow> BlackPlayer room \<noteq> None \<and> WhitePlayer room \<noteq> None) \<and>
     chess_ok (room_chess room)"

lemma colours_distinct [simp]:
  "SPACE \<noteq> BLACK" "SPACE \<noteq> WHITE" "BLACK \<noteq> WHITE" "BLACK \<noteq> SPACE" "WHITE \<noteq> SPACE" "WHITE \<noteq> BLACK"
  by (simp_all add: colour_defs)

lemmas room_ok_defs = room_ok_def seated_def

text \<open>Which seats are taken depends on the two players only.\<close>

lemma seated_frame [simp]:
  "seated (room\<lparr>RegretColor := x\<rparr>) c = seated room c"
  "seated (room\<lparr>TieColor := x\<rparr>) c = seated room c"
  "seated (room\<lparr>ReadyColor := x\<rparr>) c = seated room c"
  "seated (room\<lparr>IsPlaying := q\<rparr>) c = seated room c"
  "seated (room\<lparr>room_chess := ch\<rparr>) c = seated room c"
  "seated room SPACE"
  by (simp_all add: seated_def)

lemma seated_colour:
  "seated room BLACK \<longleftrightarrow> BlackPlayer room \<noteq> None"
  "seated room WHITE \<longleftrightarrow> WhitePlayer room \<noteq> None"
  by (auto simp: seated_def)

lemma seatedE:
  assumes "seated room c"
  obtains "c = SPACE" | p where "c = BLACK" "BlackPlayer room = Some p"
  | p where "c = WHITE" "WhitePlayer room = Some p"
  using assms by (auto simp: seated_def)

lemma seated_player:
  "Some p = BlackPlayer room \<Longrightarrow> seated room BLACK"
  "Some p = WhitePlayer room \<Longrightarrow> seated room WHITE"
  by (auto simp: seated_def dest: sym)

lemma seated_leave:
  "seated room c \<Longrightarrow> c \<noteq> BLACK \<Longrightarrow> seated (room\<lparr>BlackPlayer := None\<rparr>) c"
  "seated room c \<Longrightarrow> c \<noteq> WHITE \<Longrightarrow> seated (room\<lparr>WhitePlayer := None\<rparr>) c"
  by (auto simp: seated_def)

lemma seated_join:
  "seated room c \<Longrightarrow> seated (room\<lparr>BlackPlayer := Some p\<rparr>) c"
  "seated room c \<Longrightarrow> seated (room\<lparr>WhitePlayer := Some p\<rparr>) c"
  by (auto simp: seated_def)

lemma PlayerColor_seated: "seated room (PlayerColor (Some p) room)"
  by (auto simp: seated_def PlayerColor_def)

lemma NewRoom_ok: "room_ok game_NewRoom"
  by (simp add: room_ok_def game_NewRoom_def seated_def Init_ok zero_shape)

lemma Join_ok: "room_ok room \<Longrightarrow> room_ok (snd (Room_Join (Some p) room))"
  by (simp add: room_ok_def Room_Join_def seated_join)

lemma Leave_ok: "room_ok room \<Longrightarrow> room_ok (snd (Room_Leave player room))"
  by (simp add: room_ok_def Room_Leave_def Let_def seated_leave)

lemma Ready_ok: "room_ok room \<Longrightarrow> room_ok (snd (Room_Ready (Some p) room))"
  by (auto simp: room_ok_def Room_Ready_def seated_player dest: sym [of "Some p"])

lemma Regret_request_ok: "room_ok room \<Longrightarrow> room_ok (snd (Room_Regret (Some p) room))"
  by (simp add: room_ok_def Room_Regret_def Let_def PlayerColor_seated)

lemma Tie_request_ok: "room_ok room \<Longrightarrow> room_ok (snd (Room_Tie (Some p) room))"
  by (simp add: room_ok_def Room_Tie_def Let_def PlayerColor_seated)

lemma ReplyRegret_ok: "room_ok room \<Longrightarrow> room_ok (snd (Room_ReplyRegret player agree room))"
  by (simp add: room_ok_def Room_ReplyRegret_def split_beta Regret_ok)

text \<open>Both players are ready only when both seats are taken, so the start cannot panic.\<close>

lemma Ready_starts:
  assumes "room_ok room" "Room_Ready (Some p) room = ((color, True, err), room')"
  shows "BlackPlayer room' \<noteq> None \<and> WhitePlayer room' \<noteq> None"
proof -
  have ready: "seated room (ReadyColor room)" using assms(1) by (simp add: room_ok_def)
  have "Some p = BlackPlayer room \<and> ReadyColor room = WHITE \<or>
      Some p = WhitePlayer room \<and> ReadyColor room = BLACK"
    using assms(2) by (simp add: Room_Ready_def split: if_splits)
  then have "BlackPlayer room \<noteq> None \<and> WhitePlayer room \<noteq> None"
    using ready by (metis seated_colour option.distinct(1))
  moreover have "BlackPlayer (snd (Room_Ready (Some p) room)) = BlackPlayer room"
    "WhitePlayer (snd (Room_Ready (Some p) room)) = WhitePlayer room"
    by (simp_all add: Room_Ready_def)
  ultimately show ?thesis using assms(2) by simp
qed

lemma Start_ok:
  assumes "room_ok room" "BlackPlayer room \<noteq> None" "WhitePlayer room \<noteq> None"
  shows "\<exists>room'. Room_Start room = Some room' \<and> room_ok room' \<and> IsPlaying room' \<and>
    standing (room_chess room') = []"
  using assms by (auto simp: Room_Start_def room_ok_def Init_ok chess_ok_shape)

text \<open>What a leaving player takes along, in one update of the room.\<close>

definition unless_colour :: "byte \<Rightarrow> byte \<Rightarrow> byte" where
  "unless_colour color x = (if x = color then SPACE else x)"

lemma unless_colour_simps [simp]:
  "color \<noteq> SPACE \<Longrightarrow> unless_colour color x \<noteq> color"
  "color \<noteq> SPACE \<Longrightarrow> color \<noteq> unless_colour color x"
  "x \<noteq> color \<Longrightarrow> unless_colour color x = x"
  by (auto simp: unless_colour_def)

lemma Leave_black:
  "BlackPlayer room = Some p \<Longrightarrow> Room_Leave (Some p) room =
    (None, room\<lparr>BlackPlayer := None, RegretColor := unless_colour BLACK (RegretColor room),
      TieColor := unless_colour BLACK (TieColor room),
      ReadyColor := unless_colour BLACK (ReadyColor room), IsPlaying := False\<rparr>)"
  by (simp add: Room_Leave_def Let_def unless_colour_def)

lemma Leave_white:
  "BlackPlayer room \<noteq> Some p \<Longrightarrow> WhitePlayer room = Some p \<Longrightarrow> Room_Leave (Some p) room =
    (None, room\<lparr>WhitePlayer := None, RegretColor := unless_colour WHITE (RegretColor room),
      TieColor := unless_colour WHITE (TieColor room),
      ReadyColor := unless_colour WHITE (ReadyColor room), IsPlaying := False\<rparr>)"
  by (auto simp: Room_Leave_def Let_def unless_colour_def)

section \<open>A room as a machine\<close>

text \<open>
  The events of a room: a player joins, leaves, is ready (and the game starts when both
  are), asks for a regret, answers one, asks for a tie, places a stone with the win check.
\<close>

datatype 'p room_event =
    RJoin 'p
  | RLeave 'p
  | RReady 'p
  | RRegret 'p
  | RReply 'p bool
  | RTie 'p
  | RStone int byte

fun room_step :: "'p room_event \<Rightarrow> 'p game_room \<Rightarrow> 'p game_room option" where
  "room_step (RJoin p) room = Some (snd (Room_Join (Some p) room))"
| "room_step (RLeave p) room = Some (snd (Room_Leave (Some p) room))"
| "room_step (RReady p) room =
     (case Room_Ready (Some p) room of
        ((color, ready, err), room) \<Rightarrow> if ready then Room_Start room else Some room)"
| "room_step (RRegret p) room = Some (snd (Room_Regret (Some p) room))"
| "room_step (RReply p agree) room = Some (snd (Room_ReplyRegret (Some p) agree room))"
| "room_step (RTie p) room = Some (snd (Room_Tie (Some p) room))"
| "room_step (RStone move coor) room = do {
     (err, ch) \<leftarrow> Chess_Stone move coor (room_chess room);
     win \<leftarrow> DidYouWin ch;
     Some (room\<lparr>room_chess := ch\<rparr>)
   }"

lemma room_stone_ok:
  assumes "room_ok room"
  shows "\<exists>room'. room_step (RStone move coor) room = Some room' \<and> room_ok room'"
proof -
  have ok: "chess_ok (room_chess room)" using assms by (simp add: room_ok_def)
  then obtain err ch where ch: "Chess_Stone move coor (room_chess room) = Some (err, ch)" "chess_ok ch"
    using chess_step_ok [OF ok, of "EvStone move coor"] by auto
  then show ?thesis using assms DidYouWin_total [OF ch(2)] by (auto simp: room_ok_def)
qed

lemma room_ready_ok:
  assumes "room_ok room"
  shows "\<exists>room'. room_step (RReady p) room = Some room' \<and> room_ok room'"
proof -
  obtain color ready err room' where r: "Room_Ready (Some p) room = ((color, ready, err), room')"
    by (metis prod_cases3 surj_pair)
  then have ok: "room_ok room'" using Ready_ok [OF assms, of p] by simp
  then show ?thesis using r Ready_starts [OF assms, of p color err room'] Start_ok [OF ok] by auto
qed

lemma room_step_ok: "room_ok room \<Longrightarrow> \<exists>room'. room_step e room = Some room' \<and> room_ok room'"
proof (cases e)
  case (RReady p)
  moreover assume "room_ok room"
  ultimately show ?thesis using room_ready_ok [of room p] by simp
next
  case (RStone move coor)
  moreover assume "room_ok room"
  ultimately show ?thesis using room_stone_ok [of room move coor] by simp
qed (simp_all add: Join_ok Leave_ok Regret_request_ok ReplyRegret_ok Tie_request_ok)

interpretation room_machine: invariant_machine
  "\<lambda>room. room = (game_NewRoom :: 'p game_room)" room_step "\<lambda>_. True" room_ok
  by unfold_locales (auto simp: NewRoom_ok intro: room_step_ok)

section \<open>The abstract handshake\<close>

text \<open>
  The specification of Ready: at most one player waits. When the other player is ready the
  game starts and nobody waits any more; otherwise the caller waits.
\<close>

definition ready_abs :: "'p option \<Rightarrow> 'p \<Rightarrow> bool \<times> 'p option" where
  "ready_abs waiting p =
     (case waiting of
        None \<Rightarrow> (False, Some p)
      | Some q \<Rightarrow> if q = p then (False, Some p) else (True, None))"

definition waiting_player :: "('p, 'z) game_room_scheme \<Rightarrow> 'p option" where
  "waiting_player room =
     (if ReadyColor room = BLACK then BlackPlayer room
      else if ReadyColor room = WHITE then WhitePlayer room
      else None)"

section \<open>Properties\<close>

text \<open>
  Claim C24. A room never panics: whatever players join, leave, call ready, ask for and
  answer a regret, ask for a tie or place stones, in any order from a new room, every step
  returns and keeps the invariant (pending requests belong to occupied seats, a game in
  progress has two players, the game is well formed). In particular a game never starts
  with an empty seat.
\<close>

theorem room_never_panics:
  "\<exists>room. run room_step es (game_NewRoom :: 'p game_room) = Some room \<and> room_ok room"
  by (rule room_machine.run_safe) (simp_all add: list_all_iff)

text \<open>
  Claim C25. Ready implements the handshake: for a seated player it answers without an
  error, reports a start exactly when the other player was waiting, and leaves waiting
  exactly the player that the specification says.
\<close>

theorem Ready_refines_handshake:
  assumes "room_ok room" "BlackPlayer room \<noteq> WhitePlayer room"
    and "Some p \<in> {BlackPlayer room, WhitePlayer room}"
  shows "\<exists>color started room'. Room_Ready (Some p) room = ((color, started, None), room') \<and>
    color = PlayerColor (Some p) room \<and> (started, waiting_player room') = ready_abs (waiting_player room) p"
proof -
  have seat: "seated room (ReadyColor room)" using assms(1) by (simp add: room_ok_def)
  have black: ?thesis if "BlackPlayer room = Some p"
  proof -
    have "WhitePlayer room \<noteq> Some p" using that assms(2) by simp
    then show ?thesis using seat that
      by (elim seatedE) (auto simp: Room_Ready_def ready_abs_def waiting_player_def PlayerColor_def)
  qed
  have white: ?thesis if "WhitePlayer room = Some p"
  proof -
    have "BlackPlayer room \<noteq> Some p" using that assms(2) by simp
    then show ?thesis using seat that
      by (elim seatedE) (auto simp: Room_Ready_def ready_abs_def waiting_player_def PlayerColor_def)
  qed
  show ?thesis using assms(3) black white by auto
qed

theorem Ready_refines_handshake_witness:
  "\<exists>color started room'.
    Room_Ready (Some (8::nat)) (game_NewRoom\<lparr>BlackPlayer := Some 7, WhitePlayer := Some 8, ReadyColor := BLACK\<rparr>)
      = ((color, started, None), room') \<and> color = WHITE \<and> (started, waiting_player room') = (True, None)"
proof -
  let ?r = "game_NewRoom\<lparr>BlackPlayer := Some 7, WhitePlayer := Some (8::nat), ReadyColor := BLACK\<rparr>"
  have "room_ok ?r" using NewRoom_ok by (auto simp: room_ok_def seated_def game_NewRoom_def)
  then show ?thesis
    using Ready_refines_handshake [of ?r 8] by (simp add: PlayerColor_def ready_abs_def waiting_player_def)
qed

text \<open>
  Claim C26. A player who leaves takes everything along: after Leave of a seated player the
  seat is empty, no request of that colour is pending, no game is in progress, and the
  other seat and the requests of the other colour are as before.
\<close>

theorem Leave_clears_the_seat:
  assumes "PlayerColor (Some p) room = color" "color \<noteq> SPACE"
  shows "\<exists>room'. Room_Leave (Some p) room = (None, room') \<and> \<not> seated room' color \<and>
    color \<notin> {RegretColor room', TieColor room', ReadyColor room'} \<and> \<not> IsPlaying room' \<and>
    PlayerCount room' = PlayerCount room - 1 \<and>
    (\<forall>other. other \<noteq> color \<longrightarrow> (seated room' other \<longleftrightarrow> seated room other) \<and>
       (RegretColor room = other \<longrightarrow> RegretColor room' = other) \<and>
       (TieColor room = other \<longrightarrow> TieColor room' = other) \<and>
       (ReadyColor room = other \<longrightarrow> ReadyColor room' = other))"
proof -
  have "BlackPlayer room = Some p \<and> color = BLACK \<or>
      BlackPlayer room \<noteq> Some p \<and> WhitePlayer room = Some p \<and> color = WHITE"
    using assms by (auto simp: PlayerColor_def split: if_splits)
  then show ?thesis
  proof (elim disjE conjE)
    assume "BlackPlayer room = Some p" "color = BLACK"
    then show ?thesis by (simp add: Leave_black seated_def PlayerCount_def)
  next
    assume "BlackPlayer room \<noteq> Some p" "WhitePlayer room = Some p" "color = WHITE"
    then show ?thesis by (simp add: Leave_white seated_def PlayerCount_def)
  qed
qed

theorem Leave_clears_the_seat_witness:
  "\<exists>room'. Room_Leave (Some (7::nat)) (game_NewRoom\<lparr>BlackPlayer := Some 7, ReadyColor := BLACK\<rparr>) = (None, room') \<and>
    BLACK \<notin> {RegretColor room', TieColor room', ReadyColor room'}"
  using Leave_clears_the_seat [of 7 "game_NewRoom\<lparr>BlackPlayer := Some 7, ReadyColor := BLACK\<rparr>" BLACK]
  by (auto simp: PlayerColor_def)

text \<open>
  A request to take a move back is never answered with success: Regret returns
  an error in every case, also when it has recorded the colour of a seated player as
  pending. Tie behaves the same way.
\<close>

lemma Regret_and_Tie_always_fail:
  "fst (Room_Regret player room) \<noteq> None \<and> fst (Room_Tie player room) \<noteq> None \<and>
   (RegretColor room = SPACE \<longrightarrow> RegretColor (snd (Room_Regret player room)) = PlayerColor player room) \<and>
   (TieColor room = SPACE \<longrightarrow> TieColor (snd (Room_Tie player room)) = PlayerColor player room)"
  by (auto simp: Room_Regret_def Room_Tie_def Let_def)

lemma Regret_and_Tie_always_fail_witness:
  "fst (Room_Regret (Some (7::nat)) (game_NewRoom\<lparr>BlackPlayer := Some 7\<rparr>)) \<noteq> None \<and>
   RegretColor (snd (Room_Regret (Some 7) (game_NewRoom\<lparr>BlackPlayer := Some (7::nat)\<rparr>))) = BLACK"
  using Regret_and_Tie_always_fail [of "Some 7" "game_NewRoom\<lparr>BlackPlayer := Some (7::nat)\<rparr>"]
  by (simp add: PlayerColor_def game_NewRoom_def)

text \<open>
  The answer to a regret request is not looked at: agreeing and refusing have the
  same effect, and when the opponent of the player who asked answers, the game is taken
  back either way.
\<close>

lemma ReplyRegret_ignores_the_answer:
  assumes "PlayerColor (Some p) room = BLACK \<and> RegretColor room = WHITE"
  shows "Room_ReplyRegret (Some p) False room = Room_ReplyRegret (Some p) True room \<and>
    room_chess (snd (Room_ReplyRegret (Some p) False room)) = snd (Chess_Regret WHITE (room_chess room)) \<and>
    RegretColor (snd (Room_ReplyRegret (Some p) False room)) = SPACE"
  using assms by (auto simp: Room_ReplyRegret_def PlayerColor_def split_beta split: if_splits)

lemma ReplyRegret_ignores_the_answer_witness:
  "cursor (room_chess (snd (Room_ReplyRegret (Some (7::nat)) False
     (game_NewRoom\<lparr>BlackPlayer := Some 7, WhitePlayer := Some 8, RegretColor := WHITE, room_chess := test_game 12\<rparr>)))) = 10"
  (is "cursor (room_chess (snd (Room_ReplyRegret _ _ ?r))) = _")
proof -
  have "cursor (snd (Chess_Regret WHITE (test_game 12))) = 10" by code_simp
  moreover have "PlayerColor (Some 7) ?r = BLACK \<and> RegretColor ?r = WHITE"
    by (simp add: PlayerColor_def)
  ultimately show ?thesis
    using ReplyRegret_ignores_the_answer [of 7 ?r, THEN conjunct2, THEN conjunct1] by simp
qed

text \<open>
  Opponent is an involution on the two players of a room: with two different
  players seated, the opponent of a player is the other one and has the player as opponent,
  and the two have different colours.
\<close>

theorem Opponent_involution:
  assumes "BlackPlayer room = Some b" "WhitePlayer room = Some w" "b \<noteq> w" "p \<in> {b, w}"
  shows "\<exists>q. Opponent (Some p) room = (Some q, None) \<and> Opponent (Some q) room = (Some p, None) \<and>
    PlayerColor (Some p) room \<noteq> PlayerColor (Some q) room"
  using assms by (auto simp: Opponent_def PlayerColor_def)

theorem Opponent_involution_witness:
  "\<exists>q. Opponent (Some 8) (game_NewRoom\<lparr>BlackPlayer := Some 7, WhitePlayer := Some (8::nat)\<rparr>) = (Some q, None) \<and>
    Opponent (Some q) (game_NewRoom\<lparr>BlackPlayer := Some 7, WhitePlayer := Some (8::nat)\<rparr>) = (Some 8, None)"
  using Opponent_involution [of "game_NewRoom\<lparr>BlackPlayer := Some 7, WhitePlayer := Some (8::nat)\<rparr>" 7 8 8] by auto

end
