(* ===== verification/Idtcp.thy ===== *)
theory Idtcp
  imports Prelude
begin

text \<open>
  \<open>backend/idtcp/idtcp.go\<close>: frames of a length, an instruction and a payload on a TCP
  connection. The outgoing side is a \<open>world\<close> that logs what was written to each connection
  and which connections were closed; a write to a closed connection fails, and any other
  write fails when the environment says so. The incoming side of a connection is the list
  of chunks the socket delivers, one per call of \<open>TCPConn.Read\<close> (or more calls, when the
  buffer is smaller than the chunk), then the end of the stream. The lemmas show that a
  frame that was written is read back however the network cuts it, and which streams make
  the reader panic.
\<close>

section \<open>The outside world\<close>

type_synonym conn = nat

text \<open>
  \<open>net_fail k\<close> says whether the environment lets the k-th write fail, \<open>net_writes\<close> counts
  the writes, \<open>unix_now\<close> is the reading of the clock, and \<open>rand_ints k\<close> is the k-th number
  that \<open>crypto/rand\<close> draws (\<open>None\<close> when it fails), of which \<open>rand_pos\<close> were drawn.
\<close>

record world =
  net_out :: "(conn \<times> bytes) list"
  net_closed :: "conn list"
  net_fail :: "nat \<Rightarrow> bool"
  net_writes :: nat
  unix_now :: u64
  rand_ints :: "nat \<Rightarrow> int option"
  rand_pos :: nat

definition tcp_write :: "conn \<Rightarrow> bytes \<Rightarrow> world \<Rightarrow> (int \<times> go_error option) \<times> world" where
  "tcp_write c bs w =
     (let w' = w\<lparr>net_writes := net_writes w + 1\<rparr> in
      if c \<in> set (net_closed w) \<or> net_fail w (net_writes w) then ((0, Some ErrIO), w')
      else ((int (length bs), None), w'\<lparr>net_out := net_out w @ [(c, bs)]\<rparr>))"

definition Conn_Close :: "conn \<Rightarrow> world \<Rightarrow> world" where
  "Conn_Close c w = w\<lparr>net_closed := c # net_closed w\<rparr>"

section \<open>Frames\<close>

definition Conn_Write :: "conn \<Rightarrow> u16 \<Rightarrow> bytes \<Rightarrow> world \<Rightarrow> (int \<times> go_error option) \<times> world" where
  "Conn_Write conn instruction data w =
     (let len = int (length data) + 4 in
      if len \<ge> 65536 then ((0, Some (ErrText ''payload is out of size (65531)'')), w)
      else
        let bufferLength = le_put 2 (word_of_int len :: u16);
            bufferInstruction = le_put 2 instruction;
            payload = bufferLength @ bufferInstruction;
            payload = payload @ data
        in tcp_write conn payload w)"

text \<open>
  \<open>ReadN\<close> fills a buffer of \<open>req_n\<close> bytes; \<open>got\<close> are the bytes read so far. A read takes at
  most the bytes that are missing, and leaves the rest of the chunk for the next read.
\<close>

function ReadN :: "nat \<Rightarrow> bytes \<Rightarrow> bytes list \<Rightarrow> (go_error + bytes) \<times> bytes list" where
  "ReadN req_n got chunks =
     (if length got \<ge> req_n then (Inr got, chunks)
      else case chunks of
        [] \<Rightarrow> (Inl ErrEOF, [])
      | chunk # chunks \<Rightarrow>
          let read_n = min (req_n - length got) (length chunk) in
          ReadN req_n (got @ take read_n chunk)
            (if read_n < length chunk then drop read_n chunk # chunks else chunks))"
  by pat_completeness auto
termination
  by (relation "measure (\<lambda>(req_n, got, chunks). (req_n - length got) + length chunks)") auto

text \<open>
  \<open>make([]byte, length-2)\<close> panics on a negative length, and the slice \<open>buffer[:2]\<close> on a
  buffer of fewer than two bytes.
\<close>

definition Conn_Read :: "bytes list \<Rightarrow> ((go_error + int \<times> u16 \<times> bytes) \<times> bytes list) option" where
  "Conn_Read chunks =
     (case ReadN 2 [] chunks of
        (Inl err, chunks) \<Rightarrow> Some (Inl err, chunks)
      | (Inr package_bytes, chunks) \<Rightarrow>
          let len = uint (le_get package_bytes :: u16) in
          if len - 2 < 0 then panic
          else case ReadN (nat (len - 2)) [] chunks of
            (Inl err, chunks) \<Rightarrow> Some (Inl err, chunks)
          | (Inr buffer, chunks) \<Rightarrow>
              if length buffer < 2 then panic
              else Some (Inr (len, le_get (take 2 buffer), drop 2 buffer), chunks))"

declare ReadN.simps [simp del]

section \<open>Reading does not depend on how the stream is cut\<close>

lemma ReadN_spec:
  "length got \<le> req_n \<Longrightarrow>
   (if req_n - length got \<le> length (concat chunks)
    then \<exists>rest. ReadN req_n got chunks = (Inr (got @ take (req_n - length got) (concat chunks)), rest) \<and>
      concat rest = drop (req_n - length got) (concat chunks)
    else ReadN req_n got chunks = (Inl ErrEOF, []))"
proof (induction req_n got chunks rule: ReadN.induct)
  case (1 req_n got chunks)
  show ?case
  proof (cases "length got \<ge> req_n")
    case True
    with "1.prems" have "req_n = length got" by simp
    then show ?thesis by (simp add: ReadN.simps [of "length got" got chunks])
  next
    case False
    show ?thesis
    proof (cases chunks)
      case Nil
      then show ?thesis using False by (simp add: ReadN.simps [of req_n got "[]"])
    next
      case (Cons c cs)
      define k where "k = req_n - length got"
      define n where "n = min k (length c)"
      define got' where "got' = got @ take n c"
      define nxt where "nxt = (if n < length c then drop n c # cs else cs)"
      note folds = k_def [symmetric] n_def [symmetric] got'_def [symmetric] nxt_def [symmetric]
      have n: "length (take n c) = n" "n \<le> k" "req_n - length got' = k - n" "length got' \<le> req_n"
        using False by (simp_all add: n_def k_def got'_def)
      have step: "ReadN req_n got chunks = ReadN req_n got' nxt"
        using False Cons by (simp add: ReadN.simps [of req_n got "c # cs"] Let_def folds)
      have cat: "concat chunks = take n c @ concat nxt"
        using Cons by (auto simp: nxt_def n_def)
      have tk: "take k (concat chunks) = take n c @ take (k - n) (concat nxt)"
        and dr: "drop k (concat chunks) = drop (k - n) (concat nxt)"
        unfolding cat take_append drop_append n(1) using n(2) by simp_all
      have "length (concat chunks) = n + length (concat nxt)"
        unfolding cat length_append n(1) ..
      then have cond: "k \<le> length (concat chunks) \<longleftrightarrow> k - n \<le> length (concat nxt)"
        using n(2) by linarith
      have IH: "if k - n \<le> length (concat nxt)
          then \<exists>rest. ReadN req_n got' nxt = (Inr (got' @ take (k - n) (concat nxt)), rest) \<and>
            concat rest = drop (k - n) (concat nxt)
          else ReadN req_n got' nxt = (Inl ErrEOF, [])"
        using "1.IH" [OF False Cons refl, unfolded folds, OF n(4)] unfolding n(3) .
      show ?thesis
        using IH unfolding k_def [symmetric] step tk dr cond got'_def append_assoc .
    qed
  qed
qed

lemma ReadN_enough:
  assumes "n \<le> length (concat chunks)"
  obtains rest where "ReadN n [] chunks = (Inr (take n (concat chunks)), rest)"
    "concat rest = drop n (concat chunks)"
  using ReadN_spec [of "[]" n chunks] assms by auto

lemma ReadN_short: "length (concat chunks) < n \<Longrightarrow> ReadN n [] chunks = (Inl ErrEOF, [])"
  using ReadN_spec [of "[]" n chunks] by auto

text \<open>The reader of one frame on the whole stream, with its three ways to fail.\<close>

definition read_frame :: "bytes \<Rightarrow> ((go_error + int \<times> u16 \<times> bytes) \<times> bytes) option" where
  "read_frame bs =
     (if length bs < 2 then Some (Inl ErrEOF, [])
      else let n = unat (le_get (take 2 bs) :: u16); body = drop 2 bs in
        if n < 2 then panic
        else if length body < n - 2 then Some (Inl ErrEOF, [])
        else if n < 4 then panic
        else Some (Inr (int n, le_get (take 2 body), take (n - 4) (drop 2 body)), drop (n - 2) body))"

lemma Conn_Read_read_frame:
  "map_option (\<lambda>(r, rest). (r, concat rest)) (Conn_Read chunks) = read_frame (concat chunks)"
proof (cases "length (concat chunks) < 2")
  case True
  then show ?thesis by (simp add: Conn_Read_def ReadN_short read_frame_def)
next
  case False
  then obtain rest where rest: "ReadN 2 [] chunks = (Inr (take 2 (concat chunks)), rest)"
    "concat rest = drop 2 (concat chunks)"
    using ReadN_enough [of 2 chunks] by (auto simp: not_less)
  define n where "n = unat (le_get (take 2 (concat chunks)) :: u16)"
  have u: "uint (le_get (take 2 (concat chunks)) :: u16) = int n"
    "unat (le_get (take 2 (concat chunks)) :: u16) = n"
    by (simp_all add: n_def)
  show ?thesis
  proof (cases "n < 2 \<or> length (concat rest) < n - 2")
    case True
    then show ?thesis using False rest ReadN_short [of rest "n - 2"]
      by (auto simp: Conn_Read_def read_frame_def Let_def u nat_diff_distrib)
  next
    case long: False
    then obtain rest' where rest': "ReadN (n - 2) [] rest = (Inr (take (n - 2) (concat rest)), rest')"
      "concat rest' = drop (n - 2) (concat rest)"
      using ReadN_enough [of "n - 2" rest] by (auto simp: not_less)
    have "nat (int n - 2) = n - 2" by simp
    moreover have "drop 2 (take (n - 2) (concat rest)) = take (n - 4) (drop 2 (concat rest))"
      by (simp add: drop_take)
    moreover have "take 2 (take (n - 2) (concat rest)) = take 2 (concat rest)" if "4 \<le> n"
      using that by (simp add: take_take min_absorb1)
    ultimately show ?thesis
      using False long rest rest'
      by (auto simp: Conn_Read_def read_frame_def Let_def u min_def)
  qed
qed

section \<open>Writing\<close>

text \<open>The bytes of a frame, and the payloads that fit one.\<close>

definition frame :: "u16 \<Rightarrow> bytes \<Rightarrow> bytes" where
  "frame instruction data =
     le_put 2 (word_of_int (int (length data) + 4) :: u16) @ le_put 2 instruction @ data"

definition fits_frame :: "bytes \<Rightarrow> bool" where
  "fits_frame data \<longleftrightarrow> length data \<le> 65531"

lemma Conn_Write_spec:
  "Conn_Write c i data w =
     (if \<not> fits_frame data then ((0, Some (ErrText ''payload is out of size (65531)'')), w)
      else tcp_write c (frame i data) w)"
  by (auto simp: Conn_Write_def fits_frame_def frame_def Let_def)

lemma read_frame_frame:
  assumes "fits_frame data"
  shows "read_frame (frame i data @ rest) = Some (Inr (int (length data) + 4, i, data), rest)"
proof -
  have "unat (word_of_int (int (length data) + 4) :: u16) = length data + 4"
  proof -
    have "word_of_int (int (length data) + 4) = (of_nat (length data + 4) :: u16)" by simp
    then show ?thesis
      using assms by (simp only: fits_frame_def unsigned_of_nat) (simp add: take_bit_nat_eq_self)
  qed
  then show ?thesis
    by (simp add: read_frame_def frame_def Let_def le_get_put)
qed

section \<open>Streams of messages\<close>

text \<open>
  The contract of a receiver on a stream: when the bytes to come start with the encoding of
  a message, the receiver returns the message and leaves the rest. Then it returns any
  number of messages in the order they were sent.
\<close>

fun recv_n :: "('s \<Rightarrow> ('m \<times> 's) option) \<Rightarrow> nat \<Rightarrow> 's \<Rightarrow> ('m list \<times> 's) option" where
  "recv_n recv 0 s = Some ([], s)"
| "recv_n recv (Suc n) s = do {
     (m, s) \<leftarrow> recv s;
     (ms, s) \<leftarrow> recv_n recv n s;
     Some (m # ms, s)
   }"

locale message_stream =
  fixes enc :: "'m \<Rightarrow> bytes"
    and ok :: "'m \<Rightarrow> bool"
    and recv :: "'s \<Rightarrow> ('m \<times> 's) option"
    and flat :: "'s \<Rightarrow> bytes"
  assumes recv_enc: "ok m \<Longrightarrow> flat s = enc m @ rest \<Longrightarrow> \<exists>s'. recv s = Some (m, s') \<and> flat s' = rest"
begin

lemma recv_many:
  "list_all ok ms \<Longrightarrow> flat s = concat (map enc ms) @ rest \<Longrightarrow>
   \<exists>s'. recv_n recv (length ms) s = Some (ms, s') \<and> flat s' = rest"
proof (induction ms arbitrary: s)
  case Nil
  then show ?case by simp
next
  case (Cons m ms)
  obtain s1 where "recv s = Some (m, s1)" "flat s1 = concat (map enc ms) @ rest"
    using recv_enc [of m s "concat (map enc ms) @ rest"] Cons.prems by auto
  then show ?case using Cons.IH [of s1] Cons.prems by auto
qed

end

definition recv_frame :: "bytes list \<Rightarrow> ((u16 \<times> bytes) \<times> bytes list) option" where
  "recv_frame chunks =
     (case Conn_Read chunks of
        Some (Inr (len, instruction, data), chunks) \<Rightarrow> Some ((instruction, data), chunks)
      | _ \<Rightarrow> None)"

interpretation frame_stream: message_stream
  "\<lambda>m. frame (fst m) (snd m)" "\<lambda>m. fits_frame (snd m)" recv_frame concat
proof unfold_locales
  fix m :: "u16 \<times> bytes" and chunks rest
  assume "fits_frame (snd m)" "concat chunks = frame (fst m) (snd m) @ rest"
  then have "map_option (\<lambda>(r, rest). (r, concat rest)) (Conn_Read chunks) =
      Some (Inr (int (length (snd m)) + 4, fst m, snd m), rest)"
    by (simp add: Conn_Read_read_frame read_frame_frame)
  then show "\<exists>s'. recv_frame chunks = Some (m, s') \<and> concat s' = rest"
    by (auto simp: recv_frame_def)
qed

section \<open>The stream that the writes of a connection make\<close>

text \<open>A series of calls of Write, each with its connection, instruction and payload.\<close>

fun write_all :: "(conn \<times> u16 \<times> bytes) list \<Rightarrow> world \<Rightarrow> world" where
  "write_all [] w = w"
| "write_all ((c, instruction, data) # ms) w = write_all ms (snd (Conn_Write c instruction data w))"

text \<open>The bytes that a connection was sent since the world was \<open>w\<close>.\<close>

definition sent_to :: "conn \<Rightarrow> world \<Rightarrow> world \<Rightarrow> bytes" where
  "sent_to c w w' = concat (map snd (filter (\<lambda>entry. fst entry = c) (drop (length (net_out w)) (net_out w'))))"

text \<open>The messages for a connection that fit a frame.\<close>

definition addressed :: "conn \<Rightarrow> (conn \<times> u16 \<times> bytes) list \<Rightarrow> (u16 \<times> bytes) list" where
  "addressed c ms = map snd (filter (\<lambda>(c', instruction, data). c' = c \<and> length data \<le> 65531) ms)"

lemma Conn_Write_log:
  assumes "\<forall>k. \<not> net_fail w k"
  shows "net_out (snd (Conn_Write c i data w)) =
      net_out w @ (if fits_frame data \<and> c \<notin> set (net_closed w) then [(c, frame i data)] else [])"
    "net_closed (snd (Conn_Write c i data w)) = net_closed w" "net_fail (snd (Conn_Write c i data w)) = net_fail w"
  using assms by (simp_all add: Conn_Write_spec tcp_write_def Let_def)

lemma write_all_log:
  assumes "\<forall>k. \<not> net_fail w k"
  shows "net_out (write_all ms w) = net_out w @ map (\<lambda>(c, i, data). (c, frame i data))
    (filter (\<lambda>(c, i, data). fits_frame data \<and> c \<notin> set (net_closed w)) ms)"
  using assms
proof (induction ms w rule: write_all.induct)
  case (1 w)
  then show ?case by simp
next
  case (2 c i data ms w)
  note log = Conn_Write_log [OF "2.prems", of c i data]
  have "\<forall>k. \<not> net_fail (snd (Conn_Write c i data w)) k" using log(3) "2.prems" by simp
  from "2.IH" [OF this] show ?case using log(1,2) by simp
qed

lemma write_all_sends:
  assumes "c \<notin> set (net_closed w)" "\<forall>k. \<not> net_fail w k"
  shows "sent_to c w (write_all ms w) = concat (map (\<lambda>m. frame (fst m) (snd m)) (addressed c ms))"
proof -
  have "sent_to c w (write_all ms w) = concat (map snd (filter (\<lambda>entry. fst entry = c)
      (map (\<lambda>(c, i, data). (c, frame i data)) (filter (\<lambda>(c, i, data). fits_frame data \<and> c \<notin> set (net_closed w)) ms))))"
    by (simp add: sent_to_def write_all_log [OF assms(2)])
  also have "\<dots> = concat (map (\<lambda>m. frame (fst m) (snd m)) (addressed c ms))"
    using assms(1) by (induction ms) (auto simp: addressed_def fits_frame_def)
  finally show ?thesis .
qed

section \<open>Properties\<close>

text \<open>
  Claim C21. Frames survive the network: whatever is written to any number of connections
  with Write, in any interleaving, the messages written to an open connection that fit a
  frame are read back by successive calls of Read with the same instructions and payloads,
  in order, however TCP cuts the bytes of that connection into chunks, and the bytes after
  them are left unread. Messages to other connections and messages that do not fit leave no
  trace in the stream. No write is failed by the network here.
\<close>

theorem frames_read_back:
  assumes "c \<notin> set (net_closed w)" "\<forall>k. \<not> net_fail w k"
    and "concat chunks = sent_to c w (write_all ms w) @ rest"
  shows "\<exists>chunks'. recv_n recv_frame (length (addressed c ms)) chunks = Some (addressed c ms, chunks') \<and>
    concat chunks' = rest"
  using frame_stream.recv_many [of "addressed c ms" chunks rest] assms write_all_sends [OF assms(1,2), of ms]
  by (auto simp: addressed_def list_all_iff fits_frame_def)

text \<open>Two frames to connection 3, one to connection 4 and one that is too long.\<close>

theorem frames_read_back_witness:
  "\<exists>chunks'. recv_n recv_frame 2 [[6], [0, 5, 0, 1], [], [2, 4, 0, 4], [0, 9]] = Some ([(5, [1, 2]), (4, [])], chunks')
    \<and> concat chunks' = [9]"
proof -
  let ?w = "\<lparr>net_out = [(3, [1])], net_closed = [7], net_fail = \<lambda>_. False, net_writes = 1, unix_now = 0,
    rand_ints = \<lambda>_. None, rand_pos = 0\<rparr>"
  let ?ms = "[(3, 5, [1, 2]), (4, 8, []), (3, 6, replicate 70000 0), (3, 4, [])]"
  have msgs: "addressed 3 ?ms = [(5, [1, 2]), (4, [])]" by (simp add: addressed_def)
  have "frame 5 [1, 2] = [6, 0, 5, 0, 1, 2]" "frame 4 [] = [4, 0, 4, 0]" by code_simp+
  then have "concat [[6], [0, 5, 0, 1], [], [2, 4, 0, 4], [0, 9]] = sent_to 3 ?w (write_all ?ms ?w) @ [9]"
    using write_all_sends [of 3 ?w ?ms] msgs by simp
  from frames_read_back [OF _ _ this] show ?thesis unfolding msgs by (simp add: numeral_2_eq_2)
qed

text \<open>
  Claim C22. Read is a function of the bytes of the stream alone: its result and the bytes
  it leaves are those of the frame reader on the concatenated chunks, so errors and panics
  do not depend on how the stream is cut either.
\<close>

theorem Read_ignores_chunking:
  "map_option (\<lambda>(r, rest). (r, concat rest)) (Conn_Read chunks) = read_frame (concat chunks)"
  by (rule Conn_Read_read_frame)

text \<open>
  Claim C23. A client can make the reader panic: a frame whose length field is 0 or 1 is a
  slice of negative length, and a frame of length 2, or of length 3 with its byte, has no
  room for the instruction. These are the only streams on which Read panics.
\<close>

theorem Read_panics_iff_short_frame:
  "Conn_Read chunks = None \<longleftrightarrow>
    (let bs = concat chunks; n = unat (le_get (take 2 bs) :: u16)
     in 2 \<le> length bs \<and> n < 4 \<and> n \<le> length bs)"
proof -
  have "Conn_Read chunks = None \<longleftrightarrow> read_frame (concat chunks) = None"
    by (simp flip: Conn_Read_read_frame)
  also have "\<dots> \<longleftrightarrow> (let bs = concat chunks; n = unat (le_get (take 2 bs) :: u16)
     in 2 \<le> length bs \<and> n < 4 \<and> n \<le> length bs)"
    unfolding read_frame_def Let_def length_drop by (simp del: take_all) linarith
  finally show ?thesis .
qed

text \<open>
  Write sends one frame or nothing: a payload of more than 65531 bytes is refused
  without touching the connection, otherwise exactly one TCP write of the frame is made.
  When it succeeds the frame is the last entry of the log, and its length field is the
  number of its bytes.
\<close>

lemma Write_sends_one_frame:
  "Conn_Write c i data w =
    (if length data > 65531 then ((0, Some (ErrText ''payload is out of size (65531)'')), w)
     else tcp_write c (frame i data) w) \<and>
   (length data \<le> 65531 \<longrightarrow>
     unat (le_get (take 2 (frame i data)) :: u16) = length (frame i data))"
proof -
  have "read_frame (frame i data) = Some (Inr (int (length data) + 4, i, data), [])"
    if "length data \<le> 65531"
    using read_frame_frame [of data i "[]"] that by (simp add: fits_frame_def)
  then have "length data \<le> 65531 \<longrightarrow>
      unat (le_get (take 2 (frame i data)) :: u16) = length (frame i data)"
    by (auto simp: read_frame_def Let_def frame_def split: if_splits)
  then show ?thesis by (auto simp: Conn_Write_spec fits_frame_def)
qed

lemma Write_sends_one_frame_witness:
  "unat (le_get (take 2 (frame 8 [7, 7, 7])) :: u16) = length (frame 8 [7, 7, 7])"
  using Write_sends_one_frame [of 0 8 "[7, 7, 7]" undefined] by simp

end
