(* ===== verification/Serializer.thy ===== *)
theory Serializer
  imports Prelude
begin

text \<open>
  The cursor-based half of \<open>backend/utils/serializer.go\<close> (the API marked deprecated, which
  the fatal-error middleware, the endpoints and the UDP server use). A slice is its bytes
  together with the bytes of its backing array beyond its length: slicing reaches up to the
  capacity, so a read beyond the length may return those bytes instead of failing.
  The interface \<open>field_codec\<close> states what a writer and a reader of one field promise each
  other, and pairs of fields are derived from it once.
\<close>

section \<open>State\<close>

text \<open>
  \<open>raw\<close> is \<open>s.Raw\<close>, \<open>spare\<close> the bytes of the backing array from the length of \<open>s.Raw\<close>
  to its capacity, \<open>scursor\<close> is \<open>s.cursor\<close>.
\<close>

record serializer =
  raw :: bytes
  spare :: bytes
  scursor :: int

type_synonym 'a reading = "((go_error + 'a) \<times> serializer) option"

definition MakeSerializer :: "bytes \<Rightarrow> bytes \<Rightarrow> serializer" where
  "MakeSerializer Raw beyond = \<lparr>raw = Raw, spare = beyond, scursor = 0\<rparr>"

text \<open>The zero value that \<open>var s utils.Serializer\<close> declares.\<close>

definition fresh_serializer :: serializer where
  "fresh_serializer = \<lparr>raw = [], spare = [], scursor = 0\<rparr>"

text \<open>The slice expression \<open>s.Raw[lo : hi]\<close>: bounded by the capacity, not by the length.\<close>

definition slice_raw :: "serializer \<Rightarrow> int \<Rightarrow> int \<Rightarrow> bytes option" where
  "slice_raw s lo hi =
     (if 0 \<le> lo \<and> lo \<le> hi \<and> hi \<le> int (length (raw s) + length (spare s))
      then Some (take (nat (hi - lo)) (drop (nat lo) (raw s @ spare s))) else panic)"

definition advance :: "int \<Rightarrow> serializer \<Rightarrow> serializer" where
  "advance n s = s\<lparr>scursor := scursor s + n\<rparr>"

text \<open>\<open>append(s.Raw, bs...)\<close> writes over the spare bytes first.\<close>

definition append_raw :: "bytes \<Rightarrow> serializer \<Rightarrow> serializer" where
  "append_raw bs s = s\<lparr>raw := raw s @ bs, spare := drop (length bs) (spare s)\<rparr>"

section \<open>Readers\<close>

definition ReadByte :: "serializer \<Rightarrow> byte reading" where
  "ReadByte s =
     (if scursor s \<ge> int (length (raw s)) then Some (Inl (ErrText ''ReadByte error''), s)
      else do {
        b \<leftarrow> at_idx (raw s) (scursor s);
        Some (Inr b, advance 1 s)
      })"

definition ReadBoolean :: "serializer \<Rightarrow> bool reading" where
  "ReadBoolean s = do {
     (r, s) \<leftarrow> ReadByte s;
     Some (case r of Inl err \<Rightarrow> Inl err | Inr b \<Rightarrow> Inr (b \<noteq> 0x00), s)
   }"

definition ReadUint8 :: "serializer \<Rightarrow> byte reading" where
  "ReadUint8 s = ReadByte s"

definition ReadUint16 :: "serializer \<Rightarrow> u16 reading" where
  "ReadUint16 s = do {
     data \<leftarrow> slice_raw s (scursor s) (scursor s + 2);
     if length data \<noteq> 2 then Some (Inl (ErrText ''ReadUint16 error''), s)
     else Some (Inr (le_get data), advance 2 s)
   }"

definition ReadUint32 :: "serializer \<Rightarrow> u32 reading" where
  "ReadUint32 s = do {
     data \<leftarrow> slice_raw s (scursor s) (scursor s + 4);
     if length data \<noteq> 4 then Some (Inl (ErrText ''ReadInt32 error''), s)
     else Some (Inr (le_get data), advance 4 s)
   }"

text \<open>An \<open>int32\<close> is its value as an \<open>int\<close>; the conversion reads the word as two's complement.\<close>

definition ReadInt32 :: "serializer \<Rightarrow> int reading" where
  "ReadInt32 s = do {
     (n, s) \<leftarrow> ReadUint32 s;
     Some (case n of Inl err \<Rightarrow> Inl err | Inr n \<Rightarrow> Inr (sint n), s)
   }"

text \<open>The reader of a block whose length has been read; an error of the length read is dropped.\<close>

definition ReadBytes8 :: "serializer \<Rightarrow> bytes reading" where
  "ReadBytes8 s = do {
     (length_u8, s) \<leftarrow> ReadUint8 s;
     case length_u8 of
       Inl err \<Rightarrow> Some (Inr [], s)
     | Inr n \<Rightarrow> do {
         bytesRaw \<leftarrow> slice_raw s (scursor s) (scursor s + uint n);
         if int (length bytesRaw) \<noteq> uint n then Some (Inl (ErrText ''ReadBytes8 error''), s)
         else Some (Inr bytesRaw, advance (uint n) s)
       }
   }"

definition ReadBytes16 :: "serializer \<Rightarrow> bytes reading" where
  "ReadBytes16 s = do {
     (length_u16, s) \<leftarrow> ReadUint16 s;
     case length_u16 of
       Inl err \<Rightarrow> Some (Inr [], s)
     | Inr n \<Rightarrow> do {
         bytesRaw \<leftarrow> slice_raw s (scursor s) (scursor s + uint n);
         if int (length bytesRaw) \<noteq> uint n then Some (Inl (ErrText ''ReadBytes16 error''), s)
         else Some (Inr bytesRaw, advance (uint n) s)
       }
   }"

definition ReadString8 :: "serializer \<Rightarrow> gostring reading" where
  "ReadString8 s = do {
     (bytesRaw, s) \<leftarrow> ReadBytes8 s;
     Some (case bytesRaw of Inl err \<Rightarrow> Inl err | Inr bs \<Rightarrow> Inr bs, s)
   }"

definition ReadString16 :: "serializer \<Rightarrow> gostring reading" where
  "ReadString16 s = do {
     (bytesRaw, s) \<leftarrow> ReadBytes16 s;
     Some (case bytesRaw of Inl err \<Rightarrow> Inl err | Inr bs \<Rightarrow> Inr bs, s)
   }"

section \<open>Writers\<close>

definition WriteByte :: "byte \<Rightarrow> serializer \<Rightarrow> go_error option \<times> serializer" where
  "WriteByte val s = (None, append_raw [val] s)"

definition WriteUint8_Int :: "int \<Rightarrow> serializer \<Rightarrow> go_error option \<times> serializer" where
  "WriteUint8_Int val s =
     (if val \<ge> 256 \<or> val < 0 then (Some (ErrText ''val >= 256 || val < 0''), s)
      else (None, snd (WriteByte (word_of_int val) s)))"

definition WriteBoolean :: "bool \<Rightarrow> serializer \<Rightarrow> serializer" where
  "WriteBoolean val s = snd (if val then WriteByte 0xFF s else WriteByte 0x00 s)"

definition WriteUint16 :: "u16 \<Rightarrow> serializer \<Rightarrow> serializer" where
  "WriteUint16 val s = append_raw (le_put 2 val) s"

definition WriteUint16_Int :: "int \<Rightarrow> serializer \<Rightarrow> go_error option \<times> serializer" where
  "WriteUint16_Int val s =
     (if val \<ge> 65536 \<or> val < 0 then (Some (ErrText ''val >= 65536 || val < 0''), s)
      else (None, WriteUint16 (word_of_int val) s))"

definition WriteUint32 :: "u32 \<Rightarrow> serializer \<Rightarrow> serializer" where
  "WriteUint32 val s = append_raw (le_put 4 val) s"

definition WriteUint64 :: "u64 \<Rightarrow> serializer \<Rightarrow> serializer" where
  "WriteUint64 val s = append_raw (le_put 8 val) s"

definition WriteInt32 :: "int \<Rightarrow> serializer \<Rightarrow> serializer" where
  "WriteInt32 val s = WriteUint32 (word_of_int val) s"

definition WriteBytes8 :: "bytes \<Rightarrow> serializer \<Rightarrow> go_error option \<times> serializer" where
  "WriteBytes8 val s =
     (case WriteUint8_Int (int (length val)) s of
        (Some err, s) \<Rightarrow> (Some err, s)
      | (None, s) \<Rightarrow> (None, append_raw val s))"

definition WriteString8 :: "gostring \<Rightarrow> serializer \<Rightarrow> go_error option \<times> serializer" where
  "WriteString8 str s = WriteBytes8 str s"

definition WriteBytes16 :: "bytes \<Rightarrow> serializer \<Rightarrow> go_error option \<times> serializer" where
  "WriteBytes16 val s =
     (case WriteUint16_Int (int (length val)) s of
        (Some err, s) \<Rightarrow> (Some err, s)
      | (None, s) \<Rightarrow> (None, append_raw val s))"

definition WriteString16 :: "gostring \<Rightarrow> serializer \<Rightarrow> go_error option \<times> serializer" where
  "WriteString16 str s = WriteBytes16 str s"

section \<open>Slices\<close>

lemma advance_simps [simp]:
  "raw (advance n s) = raw s" "spare (advance n s) = spare s"
  "scursor (advance n s) = scursor s + n"
  by (simp_all add: advance_def)

lemma advance_advance [simp]: "advance n (advance m s) = advance (m + n) s"
  by (simp add: advance_def add.assoc)

lemma append_raw_simps [simp]:
  "raw (append_raw bs s) = raw s @ bs" "scursor (append_raw bs s) = scursor s"
  by (simp_all add: append_raw_def)

lemma append_raw_append [simp]: "append_raw bs (append_raw cs s) = append_raw (cs @ bs) s"
  by (simp add: append_raw_def add.commute)

lemma slice_raw_inside:
  assumes "raw s = pre @ mid @ post" "lo = int (length pre)" "hi = lo + int (length mid)"
  shows "slice_raw s lo hi = Some mid"
  using assms by (simp add: slice_raw_def)

lemma slice_raw_None:
  "slice_raw s lo hi = None \<longleftrightarrow>
     \<not> (0 \<le> lo \<and> lo \<le> hi \<and> hi \<le> int (length (raw s) + length (spare s)))"
  by (simp add: slice_raw_def)

lemma length_slice_raw:
  "slice_raw s lo hi = Some bs \<Longrightarrow> length bs = nat (hi - lo)"
  by (auto simp: slice_raw_def simp del: take_append drop_append split: if_splits)

text \<open>A slice that ends beyond the length contains bytes of the backing array.\<close>

lemma slice_raw_beyond:
  assumes "0 \<le> lo" "lo \<le> int (length (raw s))" "int (length (raw s)) \<le> hi"
    and "hi \<le> int (length (raw s) + length (spare s))"
  shows "slice_raw s lo hi =
    Some (drop (nat lo) (raw s) @ take (nat (hi - int (length (raw s)))) (spare s))"
proof -
  have "nat (hi - lo) - (length (raw s) - nat lo) = nat (hi - int (length (raw s)))"
    using assms by (simp add: nat_diff_distrib)
  moreover have "length (raw s) - nat lo \<le> nat (hi - lo)" using assms by linarith
  ultimately show ?thesis using assms by (simp add: slice_raw_def)
qed

lemma ReadByte_inside:
  "raw s = pre @ b # post \<Longrightarrow> scursor s = int (length pre) \<Longrightarrow>
   ReadByte s = Some (Inr b, advance 1 s)"
  by (simp add: ReadByte_def)

section \<open>The contract between a writer and a reader of one field\<close>

locale field_codec =
  fixes enc :: "'a \<Rightarrow> bytes"
    and ok :: "'a \<Rightarrow> bool"
    and wr :: "'a \<Rightarrow> serializer \<Rightarrow> go_error option \<times> serializer"
    and rd :: "serializer \<Rightarrow> 'a reading"
  assumes write_ok: "ok v \<Longrightarrow> wr v s = (None, append_raw (enc v) s)"
    and read_ok: "ok v \<Longrightarrow> raw s = pre @ enc v @ post \<Longrightarrow> scursor s = int (length pre) \<Longrightarrow>
      rd s = Some (Inr v, advance (int (length (enc v))) s)"
begin

lemma write_then_read:
  assumes "ok v" "scursor s = int (length (raw s))" "wr v s = (err, s')"
  shows "err = None \<and> rd s' = Some (Inr v, s'\<lparr>scursor := int (length (raw s'))\<rparr>)"
proof -
  have "err = None" "s' = append_raw (enc v) s" using write_ok [OF assms(1)] assms(3) by simp_all
  then show ?thesis
    using read_ok [OF assms(1), of s' "raw s" "[]"] assms(2) by (simp add: advance_def)
qed

text \<open>No encoding is a prefix of another: the reader decides where a field ends.\<close>

lemma enc_prefix_free:
  assumes "ok v" "ok w" "enc v @ x = enc w @ y"
  shows "v = w \<and> x = y"
proof -
  let ?s = "\<lparr>raw = enc v @ x, spare = [], scursor = 0\<rparr>"
  have "rd ?s = Some (Inr v, advance (int (length (enc v))) ?s)"
    using assms(1) by (rule read_ok [of _ _ "[]" x]) simp_all
  moreover have "rd ?s = Some (Inr w, advance (int (length (enc w))) ?s)"
    using assms(2) by (rule read_ok [of _ _ "[]" y]) (simp_all add: assms(3))
  ultimately have "v = w" by simp
  then show ?thesis using assms(3) by simp
qed

end

text \<open>Two fields one after the other, each error ending the sequence.\<close>

definition write_pair ::
  "('a \<Rightarrow> serializer \<Rightarrow> go_error option \<times> serializer) \<Rightarrow>
   ('b \<Rightarrow> serializer \<Rightarrow> go_error option \<times> serializer) \<Rightarrow>
   'a \<times> 'b \<Rightarrow> serializer \<Rightarrow> go_error option \<times> serializer" where
  "write_pair wa wb v s =
     (case wa (fst v) s of (Some err, s) \<Rightarrow> (Some err, s) | (None, s) \<Rightarrow> wb (snd v) s)"

definition read_pair ::
  "(serializer \<Rightarrow> 'a reading) \<Rightarrow> (serializer \<Rightarrow> 'b reading) \<Rightarrow> serializer \<Rightarrow> ('a \<times> 'b) reading" where
  "read_pair ra rb s = do {
     (a, s) \<leftarrow> ra s;
     case a of
       Inl err \<Rightarrow> Some (Inl err, s)
     | Inr a \<Rightarrow> do {
         (b, s) \<leftarrow> rb s;
         Some (case b of Inl err \<Rightarrow> Inl err | Inr b \<Rightarrow> Inr (a, b), s)
       }
   }"

locale codec_pair =
  a: field_codec enc_a ok_a write_a read_a + b: field_codec enc_b ok_b write_b read_b
  for enc_a :: "'a \<Rightarrow> bytes" and ok_a write_a read_a
    and enc_b :: "'b \<Rightarrow> bytes" and ok_b write_b read_b

sublocale codec_pair \<subseteq> pair: field_codec
  "\<lambda>v. enc_a (fst v) @ enc_b (snd v)" "\<lambda>v. ok_a (fst v) \<and> ok_b (snd v)"
  "write_pair write_a write_b" "read_pair read_a read_b"
proof unfold_locales
  fix v s
  assume "ok_a (fst v) \<and> ok_b (snd v)"
  then show "write_pair write_a write_b v s = (None, append_raw (enc_a (fst v) @ enc_b (snd v)) s)"
    by (simp add: write_pair_def a.write_ok b.write_ok)
next
  fix v and s :: serializer and pre post
  assume ok: "ok_a (fst v) \<and> ok_b (snd v)"
    and raw: "raw s = pre @ (enc_a (fst v) @ enc_b (snd v)) @ post"
    and cur: "scursor s = int (length pre)"
  have "read_a s = Some (Inr (fst v), advance (int (length (enc_a (fst v)))) s)"
    using ok cur raw by (intro a.read_ok [of _ _ pre]) auto
  moreover have "read_b (advance (int (length (enc_a (fst v)))) s) =
      Some (Inr (snd v), advance (int (length (enc_b (snd v)))) (advance (int (length (enc_a (fst v)))) s))"
    using ok cur raw by (intro b.read_ok [of _ _ "pre @ enc_a (fst v)"]) auto
  ultimately show "read_pair read_a read_b s =
      Some (Inr v, advance (int (length (enc_a (fst v) @ enc_b (snd v)))) s)"
    by (simp add: read_pair_def)
qed

section \<open>The fields of the code meet the contract\<close>

text \<open>A number written as one or two bytes and read back.\<close>

lemma uint_byte_of_int: "0 \<le> n \<Longrightarrow> n < 256 \<Longrightarrow> uint (word_of_int n :: byte) = n"
  by (simp add: uint_word_of_int)

lemma uint_u16_of_int: "0 \<le> n \<Longrightarrow> n < 65536 \<Longrightarrow> uint (word_of_int n :: u16) = n"
  by (simp add: uint_word_of_int)

definition enc8 :: "bytes \<Rightarrow> bytes" where
  "enc8 bs = word_of_int (int (length bs)) # bs"

definition enc16 :: "bytes \<Rightarrow> bytes" where
  "enc16 bs = le_put 2 (word_of_int (int (length bs)) :: u16) @ bs"

abbreviation fits8 :: "bytes \<Rightarrow> bool" where "fits8 bs \<equiv> length bs < 256"
abbreviation fits16 :: "bytes \<Rightarrow> bool" where "fits16 bs \<equiv> length bs < 65536"

interpretation byte_codec: field_codec "\<lambda>b. [b]" "\<lambda>_. True" WriteByte ReadByte
  by unfold_locales (simp_all add: WriteByte_def ReadByte_inside)

interpretation boolean_codec: field_codec
  "\<lambda>b. [if b then 0xFF else 0x00]" "\<lambda>_. True" "\<lambda>b s. (None, WriteBoolean b s)" ReadBoolean
proof unfold_locales
  fix v and s :: serializer and pre post
  assume "raw s = pre @ [if v then 0xFF else 0x00] @ post" "scursor s = int (length pre)"
  then show "ReadBoolean s = Some (Inr v, advance (int (length [if v then 0xFF else (0x00::byte)])) s)"
    using ReadByte_inside [of s pre "if v then 0xFF else 0x00" post] by (auto simp: ReadBoolean_def)
qed (simp add: WriteBoolean_def WriteByte_def)

interpretation uint16_codec: field_codec
  "le_put 2 :: u16 \<Rightarrow> bytes" "\<lambda>_. True" "\<lambda>v s. (None, WriteUint16 v s)" ReadUint16
  by unfold_locales
    (auto simp: WriteUint16_def ReadUint16_def slice_raw_inside le_get_put)

interpretation uint32_codec: field_codec
  "le_put 4 :: u32 \<Rightarrow> bytes" "\<lambda>_. True" "\<lambda>v s. (None, WriteUint32 v s)" ReadUint32
  by unfold_locales
    (auto simp: WriteUint32_def ReadUint32_def slice_raw_inside le_get_put)

text \<open>An \<open>int32\<close> is in the range of 32-bit two's complement.\<close>

definition is_int32 :: "int \<Rightarrow> bool" where
  "is_int32 v \<longleftrightarrow> - 2147483648 \<le> v \<and> v < 2147483648"

lemma sint_int32: "is_int32 v \<Longrightarrow> sint (word_of_int v :: u32) = v"
  by (simp add: is_int32_def sint_sbintrunc' signed_take_bit_int_eq_self)

interpretation int32_codec: field_codec
  "\<lambda>v. le_put 4 (word_of_int v :: u32)" is_int32 "\<lambda>v s. (None, WriteInt32 v s)" ReadInt32
proof unfold_locales
  fix v and s :: serializer and pre post
  assume v: "is_int32 v" and s: "raw s = pre @ le_put 4 (word_of_int v :: u32) @ post"
    "scursor s = int (length pre)"
  show "ReadInt32 s = Some (Inr v, advance (int (length (le_put 4 (word_of_int v :: u32)))) s)"
    using uint32_codec.read_ok [OF _ s] v by (simp add: ReadInt32_def sint_int32)
qed (simp add: WriteInt32_def WriteUint32_def)

interpretation bytes8_codec: field_codec enc8 fits8 WriteBytes8 ReadBytes8
proof unfold_locales
  fix v :: bytes and s :: serializer and pre post
  assume v: "fits8 v" and s: "raw s = pre @ enc8 v @ post" "scursor s = int (length pre)"
  let ?n = "word_of_int (int (length v)) :: byte"
  have "ReadByte s = Some (Inr ?n, advance 1 s)"
    using s by (intro ReadByte_inside [of _ pre _ "v @ post"]) (simp_all add: enc8_def)
  moreover have "slice_raw (advance 1 s) (scursor s + 1) (scursor s + 1 + int (length v)) = Some v"
    using s by (intro slice_raw_inside [of _ "pre @ [?n]" _ post]) (simp_all add: enc8_def)
  ultimately show "ReadBytes8 s = Some (Inr v, advance (int (length (enc8 v))) s)"
    using v uint_byte_of_int [of "int (length v)"]
    by (simp add: ReadBytes8_def ReadUint8_def enc8_def algebra_simps)
qed (simp add: WriteBytes8_def WriteUint8_Int_def WriteByte_def enc8_def)

interpretation bytes16_codec: field_codec enc16 fits16 WriteBytes16 ReadBytes16
proof unfold_locales
  fix v :: bytes and s :: serializer and pre post
  assume v: "fits16 v" and s: "raw s = pre @ enc16 v @ post" "scursor s = int (length pre)"
  let ?n = "word_of_int (int (length v)) :: u16"
  have "ReadUint16 s = Some (Inr ?n, advance 2 s)"
    using uint16_codec.read_ok [where v = ?n and s = s and pre = pre and post = "v @ post"] s by (simp add: enc16_def)
  moreover have "slice_raw (advance 2 s) (scursor s + 2) (scursor s + 2 + int (length v)) = Some v"
    using s by (intro slice_raw_inside [of _ "pre @ le_put 2 ?n" _ post]) (simp_all add: enc16_def)
  ultimately show "ReadBytes16 s = Some (Inr v, advance (int (length (enc16 v))) s)"
    using v uint_u16_of_int [of "int (length v)"]
    by (simp add: ReadBytes16_def enc16_def algebra_simps)
qed (simp add: WriteBytes16_def WriteUint16_Int_def WriteUint16_def enc16_def)

lemma sum_case_id [simp]: "(case x of Inl err \<Rightarrow> Inl err | Inr b \<Rightarrow> Inr b) = x"
  by (cases x) simp_all

lemma ReadString_eq: "ReadString8 = ReadBytes8" "ReadString16 = ReadBytes16"
proof -
  have "ReadString8 s = ReadBytes8 s" "ReadString16 s = ReadBytes16 s" for s
    by (cases "ReadBytes8 s"; cases "ReadBytes16 s"; force simp: ReadString8_def ReadString16_def)+
  then show "ReadString8 = ReadBytes8" "ReadString16 = ReadBytes16" by auto
qed

lemma WriteString_eq: "WriteString8 = WriteBytes8" "WriteString16 = WriteBytes16"
  by (simp_all add: fun_eq_iff WriteString8_def WriteString16_def)

section \<open>Outcomes on any input\<close>

definition cap :: "serializer \<Rightarrow> int" where
  "cap s = int (length (raw s) + length (spare s))"

text \<open>The \<open>n\<close> bytes of the backing array from \<open>lo\<close> on.\<close>

definition window :: "serializer \<Rightarrow> int \<Rightarrow> nat \<Rightarrow> bytes" where
  "window s lo n = take n (drop (nat lo) (raw s @ spare s))"

lemma slice_raw_window:
  assumes "0 \<le> lo" "0 \<le> n"
  shows "slice_raw s lo (lo + n) = (if lo + n > cap s then panic else Some (window s lo (nat n)))"
  unfolding slice_raw_def cap_def window_def using assms by (simp del: take_append drop_append)

lemma length_window:
  assumes "0 \<le> lo" "lo + int n \<le> cap s"
  shows "length (window s lo n) = n"
  using assms unfolding window_def cap_def by (simp del: take_append drop_append)

lemma ReadUint32_outcome:
  assumes "0 \<le> scursor s"
  shows "ReadUint32 s =
    (if scursor s + 4 > cap s then panic
     else Some (Inr (le_get (window s (scursor s) 4)), advance 4 s))"
  using length_window [OF assms, of 4] slice_raw_window [OF assms, of 4 s]
  by (simp add: ReadUint32_def)

lemma ReadUint16_outcome:
  assumes "0 \<le> scursor s"
  shows "ReadUint16 s =
    (if scursor s + 2 > cap s then panic
     else Some (Inr (le_get (window s (scursor s) 2)), advance 2 s))"
  using length_window [OF assms, of 2] slice_raw_window [OF assms, of 2 s]
  by (simp add: ReadUint16_def)

lemma ReadInt32_outcome:
  "0 \<le> scursor s \<Longrightarrow> ReadInt32 s =
    (if scursor s + 4 > cap s then panic
     else Some (Inr (sint (le_get (window s (scursor s) 4) :: u32)), advance 4 s))"
  by (simp add: ReadInt32_def ReadUint32_outcome)

lemma ReadByte_outcome:
  "0 \<le> scursor s \<Longrightarrow> ReadByte s =
    (if scursor s \<ge> int (length (raw s)) then Some (Inl (ErrText ''ReadByte error''), s)
     else Some (Inr (raw s ! nat (scursor s)), advance 1 s))"
  by (simp add: ReadByte_def)

lemma ReadString8_outcome:
  assumes "0 \<le> scursor s"
  shows "ReadString8 s =
    (if scursor s \<ge> int (length (raw s)) then Some (Inr [], s)
     else let n = uint (raw s ! nat (scursor s))
          in if scursor s + 1 + n > cap s then panic
             else Some (Inr (window s (scursor s + 1) (nat n)), advance (n + 1) s))"
proof (cases "scursor s \<ge> int (length (raw s))")
  case True
  then show ?thesis using assms by (simp add: ReadString_eq ReadBytes8_def ReadUint8_def ReadByte_outcome)
next
  case False
  let ?n = "uint (raw s ! nat (scursor s))"
  have eq: "cap (advance 1 s) = cap s" "window (advance 1 s) = window s"
    by (simp_all add: cap_def window_def fun_eq_iff)
  have "slice_raw (advance 1 s) (scursor s + 1) (scursor s + 1 + ?n) =
      (if scursor s + 1 + ?n > cap s then panic else Some (window s (scursor s + 1) (nat ?n)))"
    using slice_raw_window [of "scursor s + 1" ?n "advance 1 s"] assms by (simp add: eq)
  moreover have "length (window s (scursor s + 1) (nat ?n)) = nat ?n" if "scursor s + 1 + ?n \<le> cap s"
    using assms that by (intro length_window) simp_all
  ultimately show ?thesis using False assms
    by (simp add: ReadString_eq ReadBytes8_def ReadUint8_def ReadByte_outcome Let_def add.commute)
qed

section \<open>Messages of many fields\<close>

text \<open>
  A handler writes a message field by field with one serializer, and its receiver reads the
  fields in the same order. A cell is one field with its value, a kind the reader of a field.
\<close>

datatype cell =
    CByte byte | CBoolean bool | CUint16 u16 | CUint32 u32 | CInt32 int
  | CBytes8 bytes | CString8 gostring | CBytes16 bytes | CString16 gostring

datatype cell_kind =
    KByte | KBoolean | KWord16 | KWord32 | KInt32 | KBytes8 | KString8 | KBytes16 | KString16

fun kind_of :: "cell \<Rightarrow> cell_kind" where
  "kind_of (CByte _) = KByte" | "kind_of (CBoolean _) = KBoolean" | "kind_of (CUint16 _) = KWord16"
| "kind_of (CUint32 _) = KWord32" | "kind_of (CInt32 _) = KInt32" | "kind_of (CBytes8 _) = KBytes8"
| "kind_of (CString8 _) = KString8" | "kind_of (CBytes16 _) = KBytes16" | "kind_of (CString16 _) = KString16"

fun write_cell :: "cell \<Rightarrow> serializer \<Rightarrow> go_error option \<times> serializer" where
  "write_cell (CByte v) s = WriteByte v s"
| "write_cell (CBoolean v) s = (None, WriteBoolean v s)"
| "write_cell (CUint16 v) s = (None, WriteUint16 v s)"
| "write_cell (CUint32 v) s = (None, WriteUint32 v s)"
| "write_cell (CInt32 v) s = (None, WriteInt32 v s)"
| "write_cell (CBytes8 v) s = WriteBytes8 v s"
| "write_cell (CString8 v) s = WriteString8 v s"
| "write_cell (CBytes16 v) s = WriteBytes16 v s"
| "write_cell (CString16 v) s = WriteString16 v s"

definition map_reading :: "('a \<Rightarrow> 'b) \<Rightarrow> 'a reading \<Rightarrow> 'b reading" where
  "map_reading f r = map_option (\<lambda>(v, s). (map_sum id f v, s)) r"

fun read_cell :: "cell_kind \<Rightarrow> serializer \<Rightarrow> cell reading" where
  "read_cell KByte s = map_reading CByte (ReadByte s)"
| "read_cell KBoolean s = map_reading CBoolean (ReadBoolean s)"
| "read_cell KWord16 s = map_reading CUint16 (ReadUint16 s)"
| "read_cell KWord32 s = map_reading CUint32 (ReadUint32 s)"
| "read_cell KInt32 s = map_reading CInt32 (ReadInt32 s)"
| "read_cell KBytes8 s = map_reading CBytes8 (ReadBytes8 s)"
| "read_cell KString8 s = map_reading CString8 (ReadString8 s)"
| "read_cell KBytes16 s = map_reading CBytes16 (ReadBytes16 s)"
| "read_cell KString16 s = map_reading CString16 (ReadString16 s)"

fun write_cells :: "cell list \<Rightarrow> serializer \<Rightarrow> go_error option \<times> serializer" where
  "write_cells [] s = (None, s)"
| "write_cells (v # vs) s =
     (case write_cell v s of (Some err, s) \<Rightarrow> (Some err, s) | (None, s) \<Rightarrow> write_cells vs s)"

fun read_cells :: "cell_kind list \<Rightarrow> serializer \<Rightarrow> cell list reading" where
  "read_cells [] s = Some (Inr [], s)"
| "read_cells (k # ks) s = do {
     (v, s) \<leftarrow> read_cell k s;
     case v of
       Inl err \<Rightarrow> Some (Inl err, s)
     | Inr v \<Rightarrow> do {
         (vs, s) \<leftarrow> read_cells ks s;
         Some (map_sum id (\<lambda>vs. v # vs) vs, s)
       }
   }"

text \<open>The range of the Go type of a field, and the lengths that its writer accepts.\<close>

fun cell_typed :: "cell \<Rightarrow> bool" where
  "cell_typed (CInt32 v) = is_int32 v"
| "cell_typed _ = True"

fun cell_fits :: "cell \<Rightarrow> bool" where
  "cell_fits (CBytes8 v) = fits8 v" | "cell_fits (CString8 v) = fits8 v"
| "cell_fits (CBytes16 v) = fits16 v" | "cell_fits (CString16 v) = fits16 v"
| "cell_fits _ = True"

fun enc_cell :: "cell \<Rightarrow> bytes" where
  "enc_cell (CByte v) = [v]"
| "enc_cell (CBoolean v) = [if v then 0xFF else 0x00]"
| "enc_cell (CUint16 v) = le_put 2 v"
| "enc_cell (CUint32 v) = le_put 4 v"
| "enc_cell (CInt32 v) = le_put 4 (word_of_int v :: u32)"
| "enc_cell (CBytes8 v) = enc8 v" | "enc_cell (CString8 v) = enc8 v"
| "enc_cell (CBytes16 v) = enc16 v" | "enc_cell (CString16 v) = enc16 v"

lemma write_cell_fits: "cell_fits v \<Longrightarrow> write_cell v s = (None, append_raw (enc_cell v) s)"
  by (cases v)
    (simp_all add: WriteByte_def WriteBoolean_def WriteUint16_def WriteUint32_def WriteInt32_def
      WriteString_eq bytes8_codec.write_ok bytes16_codec.write_ok)

lemma write_cell_long: "\<not> cell_fits v \<Longrightarrow> \<exists>err s'. write_cell v s = (Some err, s')"
  by (cases v)
    (simp_all add: WriteString_eq WriteBytes8_def WriteBytes16_def WriteUint8_Int_def WriteUint16_Int_def not_less)

lemma read_cell_ok:
  assumes "cell_typed v" "cell_fits v" "raw s = pre @ enc_cell v @ post" "scursor s = int (length pre)"
  shows "read_cell (kind_of v) s = Some (Inr v, advance (int (length (enc_cell v))) s)"
proof (cases v)
  case (CByte x)
  then show ?thesis using assms byte_codec.read_ok [where v = x and s = s and pre = pre and post = post] by (simp add: map_reading_def)
next
  case (CBoolean x)
  then show ?thesis using assms boolean_codec.read_ok [where v = x and s = s and pre = pre and post = post] by (simp add: map_reading_def)
next
  case (CUint16 x)
  then show ?thesis using assms uint16_codec.read_ok [where v = x and s = s and pre = pre and post = post] by (simp add: map_reading_def)
next
  case (CUint32 x)
  then show ?thesis using assms uint32_codec.read_ok [where v = x and s = s and pre = pre and post = post] by (simp add: map_reading_def)
next
  case (CInt32 x)
  then show ?thesis using assms int32_codec.read_ok [where v = x and s = s and pre = pre and post = post] by (simp add: map_reading_def)
next
  case (CBytes8 x)
  then show ?thesis using assms bytes8_codec.read_ok [where v = x and s = s and pre = pre and post = post] by (simp add: map_reading_def)
next
  case (CString8 x)
  then show ?thesis using assms bytes8_codec.read_ok [where v = x and s = s and pre = pre and post = post] by (simp add: map_reading_def ReadString_eq)
next
  case (CBytes16 x)
  then show ?thesis using assms bytes16_codec.read_ok [where v = x and s = s and pre = pre and post = post] by (simp add: map_reading_def)
next
  case (CString16 x)
  then show ?thesis using assms bytes16_codec.read_ok [where v = x and s = s and pre = pre and post = post] by (simp add: map_reading_def ReadString_eq)
qed

lemma write_cells_fits:
  "list_all cell_fits vs \<Longrightarrow> write_cells vs s = (None, append_raw (concat (map enc_cell vs)) s)"
  by (induction vs arbitrary: s) (simp_all add: write_cell_fits append_raw_def add.commute)

lemma write_cells_long: "\<not> list_all cell_fits vs \<Longrightarrow> \<exists>err s'. write_cells vs s = (Some err, s')"
proof (induction vs arbitrary: s)
  case Nil
  then show ?case by simp
next
  case (Cons v vs)
  then show ?case using write_cell_long [of v s] by (cases "cell_fits v") (auto simp: write_cell_fits)
qed

lemma read_cells_ok:
  assumes "list_all cell_typed vs" "list_all cell_fits vs"
    and "raw s = pre @ concat (map enc_cell vs) @ post" "scursor s = int (length pre)"
  shows "read_cells (map kind_of vs) s = Some (Inr vs, advance (int (length (concat (map enc_cell vs)))) s)"
  using assms
proof (induction vs arbitrary: s pre)
  case Nil
  then show ?case by (simp add: advance_def)
next
  case (Cons v vs)
  have "read_cell (kind_of v) s = Some (Inr v, advance (int (length (enc_cell v))) s)"
    using Cons.prems by (intro read_cell_ok [of _ _ pre "concat (map enc_cell vs) @ post"]) simp_all
  moreover have "read_cells (map kind_of vs) (advance (int (length (enc_cell v))) s) =
      Some (Inr vs, advance (int (length (concat (map enc_cell vs)))) (advance (int (length (enc_cell v))) s))"
    using Cons.prems by (intro Cons.IH [of _ "pre @ enc_cell v"]) simp_all
  ultimately show ?case by simp
qed

section \<open>Properties\<close>

text \<open>
  Claim C18. What the cursor API writes it reads back: a message of any fields is written
  without an error exactly when every block fits its length field, and then reading the
  same kinds of fields from its bytes, whatever follows them and whatever lies behind the
  slice, gives the values back and leaves the cursor at the end of the message.
\<close>

theorem cells_read_back:
  assumes "list_all cell_typed vs"
  shows "(fst (write_cells vs fresh_serializer) = None \<longleftrightarrow> list_all cell_fits vs) \<and>
    (\<forall>s. write_cells vs fresh_serializer = (None, s) \<longrightarrow>
      read_cells (map kind_of vs) (MakeSerializer (raw s @ rest) beyond) =
        Some (Inr vs, \<lparr>raw = raw s @ rest, spare = beyond, scursor = int (length (raw s))\<rparr>))"
proof (cases "list_all cell_fits vs")
  case True
  show ?thesis
    using write_cells_fits [OF True, of fresh_serializer]
      read_cells_ok [OF assms True, of "MakeSerializer (concat (map enc_cell vs) @ rest) beyond" "[]" rest] True
    by (auto simp: MakeSerializer_def fresh_serializer_def advance_def)
next
  case False
  then show ?thesis using write_cells_long [OF False, of fresh_serializer] by auto
qed

theorem cells_read_back_witness:
  "read_cells [KInt32, KString8] (MakeSerializer (raw (snd (write_cells [CInt32 (-2), CString8 (lit ''no'')] fresh_serializer)) @ [9]) []) =
    Some (Inr [CInt32 (-2), CString8 (lit ''no'')],
      \<lparr>raw = [0xFE, 0xFF, 0xFF, 0xFF, 2, 110, 111, 9], spare = [], scursor = 7\<rparr>)"
proof -
  let ?vs = "[CInt32 (-2), CString8 (lit ''no'')]"
  have "write_cells ?vs fresh_serializer = (None, \<lparr>raw = [0xFE, 0xFF, 0xFF, 0xFF, 2, 110, 111], spare = [], scursor = 0\<rparr>)"
    by code_simp
  then show ?thesis
    using cells_read_back [of ?vs "[9]" "[]"] by (simp add: is_int32_def)
qed

end
