(* ===== verification/Marshal.thy ===== *)
theory Marshal
  imports Prelude
begin

text \<open>
  The reflection-based half of \<open>backend/utils/serializer.go\<close>: Marshal and Unmarshal walk the
  exported fields of a struct in order. A struct type is the list of its fields (kind, the
  two struct tags, whether the field is exported), a struct value the list of its field
  values, and \<open>bytes.Buffer\<close> the bytes still unread. A reflection call that does not fit
  the kind of the value, or sets a field that is not exported, panics. The lemmas show
  when Marshal succeeds, that Unmarshal inverts it on a fresh object and ignores what
  follows, and that Unmarshal never panics on any input. The structs that are sent over
  the network (\<open>backend/utils/type.go\<close> and those of the packages that use it) are
  interpretations of one message contract.
\<close>

section \<open>Struct types and values\<close>

datatype rkind =
    KUint8 | KUint16 | KUint32 | KUint64 | KBool | KString
  | KSlice rkind
  | KOther

record field =
  fkind :: rkind
  tag_len :: string
  tag_array :: string
  exported :: bool

text \<open>Values: \<open>VBytes\<close> is a \<open>[]byte\<close>, \<open>VStrings\<close> a \<open>[]string\<close>, \<open>VBytesList\<close> a \<open>[][]byte\<close>.\<close>

datatype fval =
    VUint8 byte | VUint16 u16 | VUint32 u32 | VUint64 u64 | VBool bool | VString gostring
  | VBytes bytes
  | VStrings "gostring list"
  | VBytesList "bytes list"
  | VOther

text \<open>An object as reflection sees it: a struct, or a pointer to one.\<close>

record gostruct =
  sfields :: "field list"
  svals :: "fval list"

datatype goobj = Struct gostruct | Ptr gostruct

datatype len_type = array_len_bytes | len_bytes

fun tag_get :: "field \<Rightarrow> len_type \<Rightarrow> string" where
  "tag_get f array_len_bytes = tag_array f"
| "tag_get f len_bytes = tag_len f"

fun tag_name :: "len_type \<Rightarrow> string" where
  "tag_name array_len_bytes = ''array_len_bytes''"
| "tag_name len_bytes = ''len_bytes''"

definition invalid_tag :: "len_type \<Rightarrow> go_error" where
  "invalid_tag tag = ErrText (''invalid `'' @ tag_name tag @ ''` struct tag'')"

definition unhandled :: go_error where "unhandled = ErrText ''unhandled type''"

section \<open>Marshal\<close>

text \<open>The writers append to the buffer; the model returns the bytes they append.\<close>

definition writeLen :: "field \<Rightarrow> len_type \<Rightarrow> int \<Rightarrow> go_error + bytes" where
  "writeLen f tag len_v =
     (let len_bytes_str = tag_get f tag in
      if len_bytes_str \<noteq> ''1'' \<and> len_bytes_str \<noteq> ''2'' then Inl (invalid_tag tag)
      else if len_bytes_str = ''1'' then
        (if len_v > 255 \<or> len_v < 0
         then Inl (ErrText (''string with '' @ tag_name tag @ '' 1 must have length <= 255''))
         else Inr [word_of_int len_v])
      else
        (if len_v > 65535 \<or> len_v < 0
         then Inl (ErrText (''string with '' @ tag_name tag @ '' 1 must have length <= 65535''))
         else Inr (le_put 2 (word_of_int len_v :: u16))))"

text \<open>\<open>writeString\<close> and \<open>writeBytes\<close>: the length, then the bytes.\<close>

definition writeBytes :: "field \<Rightarrow> bytes \<Rightarrow> go_error + bytes" where
  "writeBytes f bs =
     (case writeLen f len_bytes (int (length bs)) of Inl err \<Rightarrow> Inl err | Inr l \<Rightarrow> Inr (l @ bs))"

definition writeString :: "field \<Rightarrow> gostring \<Rightarrow> go_error + bytes" where
  "writeString f str =
     (case writeLen f len_bytes (int (length str)) of Inl err \<Rightarrow> Inl err | Inr l \<Rightarrow> Inr (l @ str))"

text \<open>The loop over the elements of a slice stops at the first error.\<close>

fun write_each :: "('a \<Rightarrow> go_error + bytes) \<Rightarrow> 'a list \<Rightarrow> go_error + bytes" where
  "write_each w [] = Inr []"
| "write_each w (x # xs) =
     (case w x of Inl err \<Rightarrow> Inl err
      | Inr bs \<Rightarrow> (case write_each w xs of Inl err \<Rightarrow> Inl err | Inr bs' \<Rightarrow> Inr (bs @ bs')))"

definition write_array :: "field \<Rightarrow> ('a \<Rightarrow> go_error + bytes) \<Rightarrow> 'a list \<Rightarrow> go_error + bytes" where
  "write_array f w xs =
     (case writeLen f array_len_bytes (int (length xs)) of
        Inl err \<Rightarrow> Inl err
      | Inr l \<Rightarrow> (case write_each w xs of Inl err \<Rightarrow> Inl err | Inr bs \<Rightarrow> Inr (l @ bs)))"

fun marshal_field :: "field \<Rightarrow> fval \<Rightarrow> (go_error + bytes) option" where
  "marshal_field f v =
     (case fkind f of
        KUint8 \<Rightarrow> (case v of VUint8 x \<Rightarrow> Some (Inr [x]) | _ \<Rightarrow> panic)
      | KUint16 \<Rightarrow> (case v of VUint16 x \<Rightarrow> Some (Inr (le_put 2 x)) | _ \<Rightarrow> panic)
      | KUint32 \<Rightarrow> (case v of VUint32 x \<Rightarrow> Some (Inr (le_put 4 x)) | _ \<Rightarrow> panic)
      | KUint64 \<Rightarrow> (case v of VUint64 x \<Rightarrow> Some (Inr (le_put 8 x)) | _ \<Rightarrow> panic)
      | KBool \<Rightarrow> (case v of VBool x \<Rightarrow> Some (Inr [if x then 0xFF else 0x00]) | _ \<Rightarrow> panic)
      | KString \<Rightarrow> (case v of VString x \<Rightarrow> Some (writeString f x) | _ \<Rightarrow> panic)
      | KSlice KUint8 \<Rightarrow> (case v of VBytes x \<Rightarrow> Some (writeBytes f x) | _ \<Rightarrow> panic)
      | KSlice KString \<Rightarrow>
          (case v of VStrings xs \<Rightarrow> Some (write_array f (writeString f) xs) | _ \<Rightarrow> panic)
      | KSlice (KSlice k) \<Rightarrow>
          (if k \<noteq> KUint8 then Some (Inl unhandled)
           else (case v of VBytesList xs \<Rightarrow> Some (write_array f (writeBytes f) xs) | _ \<Rightarrow> panic))
      | _ \<Rightarrow> Some (Inl unhandled))"

fun marshal_fields :: "field list \<Rightarrow> fval list \<Rightarrow> (go_error + bytes) option" where
  "marshal_fields [] vs = Some (Inr [])"
| "marshal_fields (f # fs) [] = panic"
| "marshal_fields (f # fs) (v # vs) = do {
     r \<leftarrow> marshal_field f v;
     case r of
       Inl err \<Rightarrow> Some (Inl err)
     | Inr bs \<Rightarrow> do {
         r' \<leftarrow> marshal_fields fs vs;
         Some (case r' of Inl err \<Rightarrow> Inl err | Inr bs' \<Rightarrow> Inr (bs @ bs'))
       }
   }"

fun Marshal :: "goobj \<Rightarrow> (go_error + bytes) option" where
  "Marshal (Ptr obj) = marshal_fields (sfields obj) (svals obj)"
| "Marshal (Struct obj) = marshal_fields (sfields obj) (svals obj)"

section \<open>Unmarshal\<close>

text \<open>
  \<open>buf.ReadByte\<close>, \<open>binary.Read\<close> of \<open>n\<close> bytes (which consumes a short rest before it
  fails) and \<open>buf.Read\<close> into a slice of length \<open>n\<close>, which may return fewer bytes.
\<close>

fun buf_ReadByte :: "bytes \<Rightarrow> (go_error + byte) \<times> bytes" where
  "buf_ReadByte [] = (Inl ErrEOF, [])"
| "buf_ReadByte (b # buf) = (Inr b, buf)"

definition binary_Read :: "nat \<Rightarrow> bytes \<Rightarrow> (go_error + 'a::len word) \<times> bytes" where
  "binary_Read n buf =
     (if n \<le> length buf then (Inr (le_get (take n buf)), drop n buf)
      else (Inl (if buf = [] then ErrEOF else ErrUnexpectedEOF), []))"

definition buf_Read :: "nat \<Rightarrow> bytes \<Rightarrow> (go_error + bytes) \<times> bytes" where
  "buf_Read n buf =
     (if buf = [] then (if n = 0 then (Inr [], []) else (Inl ErrEOF, []))
      else (Inr (take n buf), drop n buf))"

definition readLen :: "field \<Rightarrow> len_type \<Rightarrow> bytes \<Rightarrow> (go_error + nat) \<times> bytes" where
  "readLen f tag buf =
     (let len_bytes_str = tag_get f tag in
      if len_bytes_str \<noteq> ''1'' \<and> len_bytes_str \<noteq> ''2'' then (Inl (invalid_tag tag), buf)
      else if len_bytes_str = ''1'' then
        (case buf_ReadByte buf of (Inl err, buf) \<Rightarrow> (Inl err, buf) | (Inr d, buf) \<Rightarrow> (Inr (unat d), buf))
      else
        (case binary_Read 2 buf of (Inl err, buf) \<Rightarrow> (Inl err, buf)
         | (Inr (d :: u16), buf) \<Rightarrow> (Inr (unat d), buf)))"

definition readData :: "field \<Rightarrow> bytes \<Rightarrow> (go_error + bytes) \<times> bytes" where
  "readData f buf =
     (case readLen f len_bytes buf of
        (Inl err, buf) \<Rightarrow> (Inl err, buf)
      | (Inr n, buf) \<Rightarrow>
          (case buf_Read n buf of
             (Inl err, buf) \<Rightarrow> (Inl err, buf)
           | (Inr data, buf) \<Rightarrow>
               if length data \<noteq> n then (Inl (ErrText ''not enough bytes to read''), buf)
               else (Inr data, buf)))"

text \<open>
  The outcome of one field: the error, the value the field has then (a failed read of a
  number has already set it to zero) and the rest of the buffer.
\<close>

type_synonym field_read = "(go_error option \<times> fval \<times> bytes) option"

text \<open>Setting a field panics unless the field is exported.\<close>

definition set_field :: "field \<Rightarrow> go_error option \<Rightarrow> fval \<Rightarrow> bytes \<Rightarrow> field_read" where
  "set_field f err v buf = (if exported f then Some (err, v, buf) else panic)"

definition unmarshal_word ::
  "field \<Rightarrow> ('a::len word \<Rightarrow> fval) \<Rightarrow> (go_error + 'a word) \<times> bytes \<Rightarrow> field_read" where
  "unmarshal_word f con r =
     (case r of (Inl err, buf) \<Rightarrow> set_field f (Some err) (con 0) buf
      | (Inr data, buf) \<Rightarrow> set_field f None (con data) buf)"

definition unmarshal_bool :: "field \<Rightarrow> fval \<Rightarrow> bytes \<Rightarrow> field_read" where
  "unmarshal_bool f old buf =
     (case buf_ReadByte buf of
        (Inl err, buf) \<Rightarrow> Some (Some err, old, buf)
      | (Inr data, buf) \<Rightarrow>
          if data = 0xFF then set_field f None (VBool True) buf
          else if data = 0x00 then set_field f None (VBool False) buf
          else Some (Some (ErrText ''unexpected byte''), old, buf))"

text \<open>\<open>readString\<close> and \<open>readBytes\<close>: set the field to the data that was read.\<close>

definition unmarshal_data :: "field \<Rightarrow> (bytes \<Rightarrow> fval) \<Rightarrow> fval \<Rightarrow> bytes \<Rightarrow> field_read" where
  "unmarshal_data f con old buf =
     (case readData f buf of
        (Inl err, buf) \<Rightarrow> Some (Some err, old, buf)
      | (Inr data, buf) \<Rightarrow> set_field f None (con data) buf)"

text \<open>
  The loop over the elements of an array: each element is read into a fresh variable and
  appended to the value the field holds.
\<close>

fun unmarshal_each ::
  "field \<Rightarrow> (bytes list \<Rightarrow> fval) \<Rightarrow> nat \<Rightarrow> bytes list \<Rightarrow> bytes \<Rightarrow> field_read" where
  "unmarshal_each f con 0 acc buf = Some (None, con acc, buf)"
| "unmarshal_each f con (Suc n) acc buf =
     (case readData f buf of
        (Inl err, buf) \<Rightarrow> Some (Some err, con acc, buf)
      | (Inr data, buf) \<Rightarrow>
          if exported f then unmarshal_each f con n (acc @ [data]) buf else panic)"

definition unmarshal_array ::
  "field \<Rightarrow> (bytes list \<Rightarrow> fval) \<Rightarrow> bytes list \<Rightarrow> bytes \<Rightarrow> field_read" where
  "unmarshal_array f con old buf =
     (case readLen f array_len_bytes buf of
        (Inl err, buf) \<Rightarrow> Some (Some err, con old, buf)
      | (Inr n, buf) \<Rightarrow> unmarshal_each f con n old buf)"

fun unmarshal_field :: "field \<Rightarrow> fval \<Rightarrow> bytes \<Rightarrow> field_read" where
  "unmarshal_field f old buf =
     (case fkind f of
        KUint8 \<Rightarrow> unmarshal_word f VUint8 (buf_ReadByte buf)
      | KUint16 \<Rightarrow> unmarshal_word f VUint16 (binary_Read 2 buf)
      | KUint32 \<Rightarrow> unmarshal_word f VUint32 (binary_Read 4 buf)
      | KUint64 \<Rightarrow> unmarshal_word f VUint64 (binary_Read 8 buf)
      | KBool \<Rightarrow> unmarshal_bool f old buf
      | KString \<Rightarrow> unmarshal_data f VString old buf
      | KSlice KUint8 \<Rightarrow> unmarshal_data f VBytes old buf
      | KSlice KString \<Rightarrow>
          (case old of VStrings xs \<Rightarrow> unmarshal_array f VStrings xs buf | _ \<Rightarrow> panic)
      | KSlice (KSlice k) \<Rightarrow>
          (if k \<noteq> KUint8 then Some (Some unhandled, old, buf)
           else (case old of VBytesList xs \<Rightarrow> unmarshal_array f VBytesList xs buf | _ \<Rightarrow> panic))
      | _ \<Rightarrow> Some (Some unhandled, old, buf))"

text \<open>Fields after an error keep their old values.\<close>

fun unmarshal_fields ::
  "field list \<Rightarrow> fval list \<Rightarrow> bytes \<Rightarrow> (go_error option \<times> fval list \<times> bytes) option" where
  "unmarshal_fields [] vs buf = Some (None, vs, buf)"
| "unmarshal_fields (f # fs) [] buf = panic"
| "unmarshal_fields (f # fs) (v # vs) buf = do {
     (err, v', buf) \<leftarrow> unmarshal_field f v buf;
     case err of
       Some e \<Rightarrow> Some (Some e, v' # vs, buf)
     | None \<Rightarrow> do {
         (err, vs', buf) \<leftarrow> unmarshal_fields fs vs buf;
         Some (err, v' # vs', buf)
       }
   }"

fun Unmarshal :: "bytes \<Rightarrow> goobj \<Rightarrow> (go_error option \<times> goobj) option" where
  "Unmarshal b (Struct obj) =
     Some (Some (ErrText ''cannot unmarshal to a non-pointer type''), Struct obj)"
| "Unmarshal b (Ptr obj) = do {
     (err, vs, buf) \<leftarrow> unmarshal_fields (sfields obj) (svals obj) b;
     Some (err, Ptr (obj\<lparr>svals := vs\<rparr>))
   }"

section \<open>Lengths and blocks\<close>

lemma writeString_eq: "writeString = writeBytes"
  by (simp add: fun_eq_iff writeString_def writeBytes_def)

text \<open>The sizes that a tag admits.\<close>

definition fits_tag :: "string \<Rightarrow> nat \<Rightarrow> bool" where
  "fits_tag tag n \<longleftrightarrow> tag = ''1'' \<and> n \<le> 255 \<or> tag = ''2'' \<and> n \<le> 65535"

lemma writeLen_fits: "(\<exists>l. writeLen f tag (int n) = Inr l) \<longleftrightarrow> fits_tag (tag_get f tag) n"
  by (auto simp: writeLen_def fits_tag_def Let_def)

lemma writeBytes_fits: "(\<exists>l. writeBytes f bs = Inr l) \<longleftrightarrow> fits_tag (tag_len f) (length bs)"
  using writeLen_fits [of f len_bytes "length bs"] by (auto simp: writeBytes_def split: sum.splits)

lemma readLen_writeLen:
  assumes "writeLen f tag (int n) = Inr l"
  shows "readLen f tag (l @ rest) = (Inr n, rest)"
proof -
  have "n \<le> 255 \<Longrightarrow> unat (word_of_int (int n) :: byte) = n"
    by (simp add: unsigned_of_nat take_bit_nat_eq_self)
  moreover have "n \<le> 65535 \<Longrightarrow> unat (word_of_int (int n) :: u16) = n"
    by (simp add: unsigned_of_nat take_bit_nat_eq_self)
  ultimately show ?thesis
    using assms by (auto simp: writeLen_def readLen_def Let_def binary_Read_def le_get_put split: if_splits)
qed

lemma readData_writeBytes:
  assumes "writeBytes f bs = Inr l"
  shows "readData f (l @ rest) = (Inr bs, rest)"
proof -
  obtain k where k: "writeLen f len_bytes (int (length bs)) = Inr k" "l = k @ bs"
    using assms by (auto simp: writeBytes_def split: sum.splits)
  then show ?thesis
    using readLen_writeLen [OF k(1), of "bs @ rest"] by (auto simp: readData_def buf_Read_def)
qed

lemma write_each_fits:
  "(\<exists>l. write_each (writeBytes f) xs = Inr l) \<longleftrightarrow> (\<forall>x \<in> set xs. fits_tag (tag_len f) (length x))"
proof (induction xs)
  case Nil
  then show ?case by simp
next
  case (Cons x xs)
  then show ?case
    using writeBytes_fits [of f x] by (auto split: sum.splits)
qed

lemma unmarshal_each_write:
  assumes "write_each (writeBytes f) xs = Inr l" "exported f"
  shows "unmarshal_each f con (length xs) acc (l @ rest) = Some (None, con (acc @ xs), rest)"
  using assms
proof (induction xs arbitrary: l acc)
  case Nil
  then show ?case by simp
next
  case (Cons x xs)
  then obtain k l' where "writeBytes f x = Inr k" "write_each (writeBytes f) xs = Inr l'" "l = k @ l'"
    by (auto split: sum.splits)
  then show ?case using Cons.IH [of l' "acc @ [x]"] Cons.prems by (simp add: readData_writeBytes)
qed

definition array_fits :: "field \<Rightarrow> bytes list \<Rightarrow> bool" where
  "array_fits f xs \<longleftrightarrow>
     fits_tag (tag_array f) (length xs) \<and> (\<forall>x \<in> set xs. fits_tag (tag_len f) (length x))"

lemma write_array_fits: "(\<exists>l. write_array f (writeBytes f) xs = Inr l) \<longleftrightarrow> array_fits f xs"
  using writeLen_fits [of f array_len_bytes "length xs"] write_each_fits [of f xs]
  by (auto simp: write_array_def array_fits_def split: sum.splits)

lemma unmarshal_array_write:
  assumes "write_array f (writeBytes f) xs = Inr l" "exported f"
  shows "unmarshal_array f con old (l @ rest) = Some (None, con (old @ xs), rest)"
proof -
  obtain k l' where "writeLen f array_len_bytes (int (length xs)) = Inr k"
    "write_each (writeBytes f) xs = Inr l'" "l = k @ l'"
    using assms by (auto simp: write_array_def split: sum.splits)
  then show ?thesis
    using assms(2) by (simp add: unmarshal_array_def readLen_writeLen unmarshal_each_write)
qed

section \<open>Fields\<close>

text \<open>The zero value of a kind: what a field of a fresh object holds.\<close>

fun zero_val :: "rkind \<Rightarrow> fval" where
  "zero_val KUint8 = VUint8 0"
| "zero_val KUint16 = VUint16 0"
| "zero_val KUint32 = VUint32 0"
| "zero_val KUint64 = VUint64 0"
| "zero_val KBool = VBool False"
| "zero_val KString = VString []"
| "zero_val (KSlice KUint8) = VBytes []"
| "zero_val (KSlice KString) = VStrings []"
| "zero_val (KSlice (KSlice KUint8)) = VBytesList []"
| "zero_val _ = VOther"

text \<open>A value of the field's type, and a value whose sizes the tags admit.\<close>

definition supported :: "rkind \<Rightarrow> bool" where
  "supported k \<longleftrightarrow>
     k \<in> {KUint8, KUint16, KUint32, KUint64, KBool, KString,
           KSlice KUint8, KSlice KString, KSlice (KSlice KUint8)}"

definition has_kind :: "rkind \<Rightarrow> fval \<Rightarrow> bool" where
  "has_kind k v =
     (case v of
        VUint8 _ \<Rightarrow> k = KUint8
      | VUint16 _ \<Rightarrow> k = KUint16
      | VUint32 _ \<Rightarrow> k = KUint32
      | VUint64 _ \<Rightarrow> k = KUint64
      | VBool _ \<Rightarrow> k = KBool
      | VString _ \<Rightarrow> k = KString
      | VBytes _ \<Rightarrow> k = KSlice KUint8
      | VStrings _ \<Rightarrow> k = KSlice KString
      | VBytesList _ \<Rightarrow> k = KSlice (KSlice KUint8)
      | VOther \<Rightarrow> \<not> supported k)"

fun encodable :: "field \<Rightarrow> fval \<Rightarrow> bool" where
  "encodable f (VString x) = fits_tag (tag_len f) (length x)"
| "encodable f (VBytes x) = fits_tag (tag_len f) (length x)"
| "encodable f (VStrings xs) = array_fits f xs"
| "encodable f (VBytesList xs) = array_fits f xs"
| "encodable f VOther = False"
| "encodable f _ = True"

text \<open>A kind the code does not handle is an error both ways.\<close>

lemma unsupported_field:
  assumes "\<not> supported (fkind f)"
  shows "marshal_field f v = Some (Inl unhandled)"
    and "unmarshal_field f v buf = Some (Some unhandled, v, buf)"
proof -
  have "(\<exists>k. fkind f = KSlice (KSlice k) \<and> k \<noteq> KUint8) \<or> fkind f = KOther \<or>
      (\<exists>k. fkind f = KSlice k \<and> k \<notin> {KUint8, KString} \<and> (\<forall>k'. k \<noteq> KSlice k'))"
    using assms by (cases "fkind f") (auto simp: supported_def)
  then show "marshal_field f v = Some (Inl unhandled)"
    and "unmarshal_field f v buf = Some (Some unhandled, v, buf)"
    by (auto split: rkind.splits)
qed

lemma marshal_field_ok:
  assumes "has_kind (fkind f) v"
  shows "(\<exists>bs. marshal_field f v = Some (Inr bs)) \<longleftrightarrow> encodable f v"
proof (cases "v = VOther")
  case True
  then show ?thesis using assms by (simp add: has_kind_def unsupported_field del: marshal_field.simps)
next
  case False
  then show ?thesis using assms
    by (cases v)
      (auto simp: has_kind_def writeString_eq writeBytes_fits [symmetric] write_array_fits [symmetric])
qed

lemma marshal_field_total: "has_kind (fkind f) v \<Longrightarrow> \<exists>r. marshal_field f v = Some r"
proof (cases "v = VOther")
  case True
  moreover assume "has_kind (fkind f) v"
  ultimately show ?thesis by (simp add: has_kind_def unsupported_field del: marshal_field.simps)
next
  case False
  moreover assume "has_kind (fkind f) v"
  ultimately show ?thesis by (cases v) (auto simp: has_kind_def)
qed

lemma unmarshal_marshal_field:
  assumes "has_kind (fkind f) v" "exported f" "marshal_field f v = Some (Inr bs)"
  shows "unmarshal_field f (zero_val (fkind f)) (bs @ rest) = Some (None, v, rest)"
proof (cases "v = VOther")
  case True
  then show ?thesis using assms by (simp add: has_kind_def unsupported_field del: marshal_field.simps)
next
  case False
  then show ?thesis using assms
    by (cases v)
      (auto simp: has_kind_def writeString_eq unmarshal_word_def unmarshal_bool_def
        unmarshal_data_def set_field_def binary_Read_def le_get_put readData_writeBytes
        unmarshal_array_write)
qed

text \<open>Unmarshal of a field returns on every input and leaves a value of the field's type.\<close>

lemma unmarshal_each_total:
  assumes "exported f"
  shows "\<exists>err xs buf'. unmarshal_each f con n acc buf = Some (err, con xs, buf')"
proof (induction n arbitrary: acc buf)
  case 0
  then show ?case by auto
next
  case (Suc n)
  then show ?case using assms by (auto split: prod.splits sum.splits)
qed

lemma unmarshal_array_total:
  "exported f \<Longrightarrow> \<exists>err xs buf'. unmarshal_array f con old buf = Some (err, con xs, buf')"
  using unmarshal_each_total [of f con] by (auto simp: unmarshal_array_def split: prod.splits sum.splits)

lemma unmarshal_field_total:
  assumes "has_kind (fkind f) old" "exported f"
  shows "\<exists>err v buf'. unmarshal_field f old buf = Some (err, v, buf') \<and> has_kind (fkind f) v"
proof (cases old)
  case (VStrings xs)
  then show ?thesis using assms unmarshal_array_total [of f VStrings xs buf]
    by (auto simp: has_kind_def)
next
  case (VBytesList xs)
  then show ?thesis using assms unmarshal_array_total [of f VBytesList xs buf]
    by (auto simp: has_kind_def)
next
  case VOther
  then show ?thesis using assms by (simp add: has_kind_def unsupported_field del: unmarshal_field.simps)
qed (use assms in \<open>auto simp: has_kind_def unmarshal_word_def unmarshal_bool_def unmarshal_data_def
    set_field_def split: prod.splits sum.splits\<close>)

declare marshal_field.simps [simp del] unmarshal_field.simps [simp del]

section \<open>Structs\<close>

abbreviation typed :: "field list \<Rightarrow> fval list \<Rightarrow> bool" where
  "typed \<equiv> list_all2 (\<lambda>f v. has_kind (fkind f) v)"

abbreviation zeros :: "field list \<Rightarrow> fval list" where
  "zeros fs \<equiv> map (\<lambda>f. zero_val (fkind f)) fs"

lemma zero_val_kind: "has_kind k (zero_val k)"
  by (induction k rule: zero_val.induct) (simp_all add: has_kind_def supported_def)

lemma typed_zeros: "typed fs (zeros fs)"
  by (simp add: list_all2_conv_all_nth zero_val_kind)

lemma marshal_fields_total: "typed fs vs \<Longrightarrow> \<exists>r. marshal_fields fs vs = Some r"
proof (induction rule: list_all2_induct)
  case Nil
  then show ?case by simp
next
  case (Cons f fs v vs)
  then show ?case using marshal_field_total [of f v] by (auto split: sum.splits)
qed

lemma marshal_fields_ok:
  "typed fs vs \<Longrightarrow> (\<exists>bs. marshal_fields fs vs = Some (Inr bs)) \<longleftrightarrow> list_all2 encodable fs vs"
proof (induction rule: list_all2_induct)
  case Nil
  then show ?case by simp
next
  case (Cons f fs v vs)
  obtain r r' where r: "marshal_field f v = Some r" "marshal_fields fs vs = Some r'"
    using marshal_field_total [OF Cons(1)] marshal_fields_total [OF Cons(2)] by blast
  have "(\<exists>bs. marshal_fields (f # fs) (v # vs) = Some (Inr bs)) \<longleftrightarrow>
      (\<exists>bs. r = Inr bs) \<and> (\<exists>bs. r' = Inr bs)"
    by (auto simp: r split: sum.splits)
  then show ?case using Cons.IH marshal_field_ok [OF Cons(1)] r by simp
qed

lemma unmarshal_marshal_fields:
  assumes "typed fs vs" "list_all exported fs" "marshal_fields fs vs = Some (Inr bs)"
  shows "unmarshal_fields fs (zeros fs) (bs @ rest) = Some (None, vs, rest)"
  using assms
proof (induction arbitrary: bs rule: list_all2_induct)
  case Nil
  then show ?case by simp
next
  case (Cons f fs v vs)
  obtain r r' where "marshal_field f v = Some r" "marshal_fields fs vs = Some r'"
    using marshal_field_total [OF Cons(1)] marshal_fields_total [OF Cons(2)] by blast
  with Cons.prems obtain b b' where b: "marshal_field f v = Some (Inr b)"
    "marshal_fields fs vs = Some (Inr b')" "bs = b @ b'"
    by (cases r; cases r') auto
  then show ?case
    using Cons unmarshal_marshal_field [OF Cons(1) _ b(1), of "b' @ rest"] by simp
qed

lemma unmarshal_fields_total:
  assumes "typed fs vs" "list_all exported fs"
  shows "\<exists>err vs' buf'. unmarshal_fields fs vs buf = Some (err, vs', buf') \<and> typed fs vs'"
  using assms
proof (induction arbitrary: buf rule: list_all2_induct)
  case Nil
  then show ?case by simp
next
  case (Cons f fs v vs)
  obtain err v' buf' where step: "unmarshal_field f v buf = Some (err, v', buf')"
    "has_kind (fkind f) v'"
    using unmarshal_field_total [OF Cons(1)] Cons.prems by fastforce
  obtain err' vs' buf'' where rest: "unmarshal_fields fs vs buf' = Some (err', vs', buf'')" "typed fs vs'"
    using Cons.IH [of buf'] Cons.prems by auto
  show ?case using step rest Cons(2) by (cases err) auto
qed

section \<open>Messages\<close>

text \<open>
  The contract of a struct that is sent as a message: its values have the types of its
  fields, all fields are exported, and the values determine the struct.
\<close>

locale wire_struct =
  fixes fs :: "field list"
    and to_vals :: "'m \<Rightarrow> fval list"
  assumes typed: "typed fs (to_vals m)"
    and exported: "list_all exported fs"
    and to_vals_inj: "to_vals m = to_vals m' \<Longrightarrow> m = m'"
begin

lemma encode_iff:
  "(\<exists>bs. marshal_fields fs (to_vals m) = Some (Inr bs)) \<longleftrightarrow> list_all2 encodable fs (to_vals m)"
  by (rule marshal_fields_ok [OF typed])

lemma decode_encode:
  "marshal_fields fs (to_vals m) = Some (Inr bs) \<Longrightarrow>
   unmarshal_fields fs (zeros fs) (bs @ rest) = Some (None, to_vals m, rest)"
  by (rule unmarshal_marshal_fields [OF typed exported])

lemma decode_total:
  "\<exists>err vs buf'. unmarshal_fields fs (zeros fs) buf = Some (err, vs, buf') \<and>
    list_all2 (\<lambda>f v. has_kind (fkind f) v) fs vs"
  by (rule unmarshal_fields_total [OF typed_zeros exported])

text \<open>Two messages with the same bytes are the same message.\<close>

lemma encode_inj:
  assumes "marshal_fields fs (to_vals m) = Some (Inr bs)" "marshal_fields fs (to_vals m') = Some (Inr bs)"
  shows "m = m'"
  using decode_encode [OF assms(1), of "[]"] decode_encode [OF assms(2), of "[]"]
  by (auto intro: to_vals_inj)

end

text \<open>A field with its two tags; the absent tag is the empty string, as \<open>Tag.Get\<close> returns it.\<close>

definition fld :: "rkind \<Rightarrow> string \<Rightarrow> string \<Rightarrow> field" where
  "fld k l a = \<lparr>fkind = k, tag_len = l, tag_array = a, exported = True\<rparr>"

lemma fld_sel [simp]:
  "fkind (fld k l a) = k" "tag_len (fld k l a) = l" "tag_array (fld k l a) = a" "exported (fld k l a)"
  by (simp_all add: fld_def)

subsection \<open>The structs of type.go\<close>

record S_LeaveRoom =
  slr_Username :: gostring

record S_Message =
  sm_Timestamp :: u64
  sm_Username :: gostring
  sm_Message :: gostring

record C_YouJoinRoom =
  yj_IsSuccess :: bool
  yj_RoomName :: gostring
  yj_MaxUsers :: byte
  yj_BlackUsername :: gostring
  yj_WhileUsername :: gostring
  yj_Onlookers :: "gostring list"
  yj_ReadyPlayer :: byte
  yj_IsPlaying :: bool
  yj_RegretPlayer :: byte
  yj_TiePlayer :: byte
  yj_Records :: bytes

record C_OtherJoinRoom =
  oj_Username :: gostring
  oj_Role :: byte

record C_Message =
  cm_Message :: gostring

definition S_LeaveRoom_fields :: "field list" where
  "S_LeaveRoom_fields = [fld KString ''1'' '''']"

definition S_LeaveRoom_vals :: "S_LeaveRoom \<Rightarrow> fval list" where
  "S_LeaveRoom_vals m = [VString (slr_Username m)]"

definition S_Message_fields :: "field list" where
  "S_Message_fields = [fld KUint64 '''' '''', fld KString ''1'' '''', fld KString ''2'' '''']"

definition S_Message_vals :: "S_Message \<Rightarrow> fval list" where
  "S_Message_vals m = [VUint64 (sm_Timestamp m), VString (sm_Username m), VString (sm_Message m)]"

definition C_YouJoinRoom_fields :: "field list" where
  "C_YouJoinRoom_fields =
     [fld KBool '''' '''', fld KString ''1'' '''', fld KUint8 '''' '''', fld KString ''1'' '''',
      fld KString ''1'' '''', fld (KSlice KString) ''1'' ''1'', fld KUint8 '''' '''',
      fld KBool '''' '''', fld KUint8 '''' '''', fld KUint8 '''' '''', fld (KSlice KUint8) ''1'' '''']"

definition C_YouJoinRoom_vals :: "C_YouJoinRoom \<Rightarrow> fval list" where
  "C_YouJoinRoom_vals m =
     [VBool (yj_IsSuccess m), VString (yj_RoomName m), VUint8 (yj_MaxUsers m),
      VString (yj_BlackUsername m), VString (yj_WhileUsername m), VStrings (yj_Onlookers m),
      VUint8 (yj_ReadyPlayer m), VBool (yj_IsPlaying m), VUint8 (yj_RegretPlayer m),
      VUint8 (yj_TiePlayer m), VBytes (yj_Records m)]"

definition C_OtherJoinRoom_fields :: "field list" where
  "C_OtherJoinRoom_fields = [fld KString ''1'' '''', fld KUint8 '''' '''']"

definition C_OtherJoinRoom_vals :: "C_OtherJoinRoom \<Rightarrow> fval list" where
  "C_OtherJoinRoom_vals m = [VString (oj_Username m), VUint8 (oj_Role m)]"

definition C_Message_fields :: "field list" where
  "C_Message_fields = [fld KString ''2'' '''']"

definition C_Message_vals :: "C_Message \<Rightarrow> fval list" where
  "C_Message_vals m = [VString (cm_Message m)]"

named_theorems message_defs \<open>fields and values of the messages\<close>

lemmas [message_defs] =
  S_LeaveRoom_fields_def S_LeaveRoom_vals_def S_Message_fields_def S_Message_vals_def
  C_YouJoinRoom_fields_def C_YouJoinRoom_vals_def C_OtherJoinRoom_fields_def
  C_OtherJoinRoom_vals_def C_Message_fields_def C_Message_vals_def

interpretation leave_room_msg: wire_struct S_LeaveRoom_fields S_LeaveRoom_vals
  by unfold_locales (auto simp: message_defs has_kind_def)

interpretation s_message_msg: wire_struct S_Message_fields S_Message_vals
  by unfold_locales (auto simp: message_defs has_kind_def)

interpretation you_join_msg: wire_struct C_YouJoinRoom_fields C_YouJoinRoom_vals
  by unfold_locales (auto simp: message_defs has_kind_def)

interpretation other_join_msg: wire_struct C_OtherJoinRoom_fields C_OtherJoinRoom_vals
  by unfold_locales (auto simp: message_defs has_kind_def)

interpretation c_message_msg: wire_struct C_Message_fields C_Message_vals
  by unfold_locales (auto simp: message_defs has_kind_def)

subsection \<open>Sending and receiving a struct\<close>

text \<open>\<open>utils.Marshal(m)\<close> of a struct, and \<open>utils.Unmarshal(b, new(T))\<close>.\<close>

definition encode_struct :: "field list \<Rightarrow> ('m \<Rightarrow> fval list) \<Rightarrow> 'm \<Rightarrow> (go_error + bytes) option" where
  "encode_struct fs to_vals m = Marshal (Struct \<lparr>sfields = fs, svals = to_vals m\<rparr>)"

definition decode_struct ::
  "field list \<Rightarrow> (fval list \<Rightarrow> 'm option) \<Rightarrow> bytes \<Rightarrow> (go_error + 'm) option" where
  "decode_struct fs of_vals b = do {
     (err, obj) \<leftarrow> Unmarshal b (Ptr \<lparr>sfields = fs, svals = zeros fs\<rparr>);
     case err of
       Some e \<Rightarrow> Some (Inl e)
     | None \<Rightarrow> (case obj of Ptr st \<Rightarrow> map_option Inr (of_vals (svals st)) | Struct st \<Rightarrow> panic)
   }"

text \<open>A struct that is also received: the values of its types make a struct.\<close>

locale wire_reader = wire_struct fs to_vals
  for fs :: "field list" and to_vals :: "'m \<Rightarrow> fval list" +
  fixes of_vals :: "fval list \<Rightarrow> 'm option"
  assumes of_to_vals: "of_vals (to_vals m) = Some m"
    and of_vals_typed: "list_all2 (\<lambda>f v. has_kind (fkind f) v) fs vs \<Longrightarrow> of_vals vs \<noteq> None"
begin

lemma decode_returns: "\<exists>r. decode_struct fs of_vals b = Some r"
proof -
  obtain err vs buf where "unmarshal_fields fs (zeros fs) b = Some (err, vs, buf)" "of_vals vs \<noteq> None"
    using decode_total [of b] of_vals_typed by blast
  then show ?thesis by (auto simp: decode_struct_def split: option.splits)
qed

lemma received:
  "encode_struct fs to_vals m = Some (Inr bs) \<Longrightarrow> decode_struct fs of_vals (bs @ rest) = Some (Inr m)"
  using decode_encode [of m bs rest] by (simp add: encode_struct_def decode_struct_def of_to_vals)

end

text \<open>Marshal never panics on a struct whose values have the types of its fields.\<close>

lemma encode_returns:
  "typed fs (to_vals m) \<Longrightarrow> \<exists>r. encode_struct fs to_vals m = Some r"
  by (simp add: encode_struct_def marshal_fields_total)

lemma has_kind_cases:
  "has_kind KUint8 v \<longleftrightarrow> (\<exists>x. v = VUint8 x)"
  "has_kind KString v \<longleftrightarrow> (\<exists>x. v = VString x)"
  "has_kind (KSlice KUint8) v \<longleftrightarrow> (\<exists>x. v = VBytes x)"
  by (cases v; simp add: has_kind_def supported_def)+

fun C_Message_of :: "fval list \<Rightarrow> C_Message option" where
  "C_Message_of [VString s] = Some \<lparr>cm_Message = s\<rparr>"
| "C_Message_of _ = None"

interpretation c_message_rd: wire_reader C_Message_fields C_Message_vals C_Message_of
  by unfold_locales (auto simp: message_defs has_kind_cases list_all2_Cons1)

section \<open>The struct of the test suite\<close>

text \<open>\<open>Foo\<close> and \<open>newFoo\<close> of \<open>serializer_test.go\<close>.\<close>

definition Foo_fields :: "field list" where
  "Foo_fields =
     [fld KUint8 '''' '''', fld KString ''1'' '''', fld (KSlice KUint8) ''2'' '''', fld KUint8 '''' '''',
      fld KBool '''' '''', fld KUint8 '''' '''', fld (KSlice (KSlice KUint8)) ''1'' ''1'',
      fld (KSlice KString) ''1'' ''2'']"

definition newFoo :: "fval list" where
  "newFoo =
     [VUint8 123, VString (lit ''bbbb''), VBytes (lit ''ccccccccccccc''), VUint8 (of_char (CHR ''x'')),
      VBool True, VUint8 0xAA, VBytesList [lit ''g1g1g1g1g1'', lit ''g2g2g2g2''],
      VStrings [lit ''h1h1h1h1'', lit ''h2h2h2h2h2'']]"

definition newFoo_bytes :: bytes where
  "newFoo_bytes =
     [123, 4] @ lit ''bbbb'' @ [13, 0] @ lit ''ccccccccccccc'' @ lit ''x'' @ [0xFF, 0xAA] @
     [2, 10] @ lit ''g1g1g1g1g1'' @ [8] @ lit ''g2g2g2g2'' @
     [2, 0, 8] @ lit ''h1h1h1h1'' @ [10] @ lit ''h2h2h2h2h2''"

lemma Marshal_newFoo: "marshal_fields Foo_fields newFoo = Some (Inr newFoo_bytes)"
  by code_simp

lemma Foo_typed: "typed Foo_fields newFoo" "list_all exported Foo_fields"
  by (simp_all add: Foo_fields_def newFoo_def has_kind_def)

section \<open>Properties\<close>

text \<open>
  Claim C15. Unmarshal inverts Marshal: the bytes of a struct, followed by anything, read
  into a fresh object of the same type give back exactly the values, without an error.
\<close>

theorem Unmarshal_Marshal:
  assumes "typed fs vs" "list_all exported fs"
    and "Marshal (Struct \<lparr>sfields = fs, svals = vs\<rparr>) = Some (Inr bs)"
  shows "Unmarshal (bs @ rest) (Ptr \<lparr>sfields = fs, svals = zeros fs\<rparr>) =
    Some (None, Ptr \<lparr>sfields = fs, svals = vs\<rparr>)"
  using unmarshal_marshal_fields [OF assms(1,2)] assms(3) by simp

theorem Unmarshal_Marshal_witness:
  "Unmarshal (newFoo_bytes @ [1, 2]) (Ptr \<lparr>sfields = Foo_fields, svals = zeros Foo_fields\<rparr>) =
    Some (None, Ptr \<lparr>sfields = Foo_fields, svals = newFoo\<rparr>)"
  using Foo_typed by (rule Unmarshal_Marshal) (simp add: Marshal_newFoo)

text \<open>
  Claim C17. Marshal returns on every struct whose values have the types of its fields, the
  same for an object and a pointer to it, and it succeeds exactly when every field is of a
  kind the code handles and every length fits its struct tag.
\<close>

theorem Marshal_succeeds_iff:
  assumes "typed (sfields obj) (svals obj)"
  shows "\<exists>r. Marshal (Struct obj) = Some r \<and> Marshal (Ptr obj) = Some r \<and>
    ((\<exists>bs. r = Inr bs) \<longleftrightarrow> list_all2 encodable (sfields obj) (svals obj))"
  using marshal_fields_total [OF assms] marshal_fields_ok [OF assms] by auto

theorem Marshal_succeeds_iff_witness:
  "\<exists>r. Marshal (Struct \<lparr>sfields = [fld KString ''1'' ''''], svals = [VString (replicate 300 65)]\<rparr>) = Some r
    \<and> (\<forall>bs. r \<noteq> Inr bs)"
  using Marshal_succeeds_iff [of "\<lparr>sfields = [fld KString ''1'' ''''], svals = [VString (replicate 300 65)]\<rparr>"]
  by (auto simp: has_kind_def fits_tag_def)

text \<open>
  Claim C16. Unmarshal never panics: whatever the bytes, reading them into an object whose
  fields are exported returns, and the object keeps its type, also after an error.
\<close>

theorem Unmarshal_never_panics:
  assumes "typed (sfields obj) (svals obj)" "list_all exported (sfields obj)"
  shows "\<exists>err obj'. Unmarshal b (Ptr obj) = Some (err, Ptr obj') \<and>
    sfields obj' = sfields obj \<and> typed (sfields obj') (svals obj')"
  using unmarshal_fields_total [OF assms, of b] by auto

theorem Unmarshal_never_panics_witness:
  "\<exists>err obj'. Unmarshal [5, 9, 9] (Ptr \<lparr>sfields = Foo_fields, svals = newFoo\<rparr>) = Some (err, Ptr obj') \<and>
    sfields obj' = Foo_fields \<and> typed (sfields obj') (svals obj')"
  using Unmarshal_never_panics [of "\<lparr>sfields = Foo_fields, svals = newFoo\<rparr>" "[5, 9, 9]"] Foo_typed
  by simp

end
