(* ===== verification/ServerState.thy ===== *)
theory ServerState
  imports GameRoom Idtcp Serializer Marshal
begin

text \<open>
  The state that the server's handlers share. A user object is created once and never
  changed, and the code compares user pointers only, so a pointer is the object with a
  number that no two objects share. A room pointer is the index of the room in the list
  that the room middleware made at start. The payloads of a connection (one per
  middleware) live as long as the connection and are looked up by it.
\<close>

section \<open>Users (mdwuser/user.go)\<close>

record user =
  user_id :: nat
  Username :: gostring
  NumOfWins :: u32
  NumOfTies :: u32
  NumOfLosses :: u32
  NumOfMatches :: u32
  GameDuration :: u64
  user_conn :: conn
  gameStamp :: u64

definition ServerUsername :: gostring where "ServerUsername = lit ''Server''"

definition NewUser :: "nat \<Rightarrow> gostring \<Rightarrow> conn \<Rightarrow> u64 \<Rightarrow> user" where
  "NewUser ident username c now =
     \<lparr>user_id = ident, Username = username, NumOfWins = 0, NumOfTies = 0, NumOfLosses = 0,
      NumOfMatches = 0, GameDuration = 0, user_conn = c, gameStamp = now\<rparr>"

text \<open>A method on a nil pointer is fine in Go: the receiver is an option.\<close>

definition GetUsername :: "user option \<Rightarrow> gostring \<Rightarrow> gostring" where
  "GetUsername u defaultUsername = (case u of None \<Rightarrow> defaultUsername | Some u \<Rightarrow> Username u)"

section \<open>Rooms (mdwroom/room.go)\<close>

record mroom = "user game_room" +
  Name :: gostring
  MaxUsers :: int
  Users :: "user list"

definition MaxUsers_const :: int where "MaxUsers_const = 200"

section \<open>Payloads and the server\<close>

text \<open>An execution is the connection, the error number and the message of a fatal error.\<close>

type_synonym execution = "conn \<times> int \<times> gostring"

record payload =
  PUser :: "user option"
  PRoom :: "nat option"
  Executions :: "execution list"

record 'db server =
  Rooms :: "mroom list"
  Db :: 'db
  next_user :: nat
  Payloads :: "conn \<Rightarrow> payload"
  World :: world
  connectionSet :: "conn list"

record request =
  Instruction :: u16
  Data :: bytes
  Conn :: conn

text \<open>
  Handlers return the error and the new state, or panic. The writes of a handler act on the
  world; \<open>in_world\<close> and \<open>write_world\<close> run them inside the server state.
\<close>

type_synonym 'db handler = "request \<Rightarrow> 'db server \<Rightarrow> (go_error option \<times> 'db server) option"

definition in_world :: "(world \<Rightarrow> world) \<Rightarrow> 'db server \<Rightarrow> 'db server" where
  "in_world f s = s\<lparr>World := f (World s)\<rparr>"

definition write_world ::
  "(world \<Rightarrow> go_error option \<times> world) \<Rightarrow> 'db server \<Rightarrow> go_error option \<times> 'db server" where
  "write_world f s = (case f (World s) of (err, w) \<Rightarrow> (err, s\<lparr>World := w\<rparr>))"

text \<open>The call \<open>_, err := conn.Write(...)\<close>.\<close>

definition write_conn :: "conn \<Rightarrow> u16 \<Rightarrow> bytes \<Rightarrow> world \<Rightarrow> go_error option \<times> world" where
  "write_conn c i d w = (case Conn_Write c i d w of ((n, err), w) \<Rightarrow> (err, w))"

definition set_payload :: "conn \<Rightarrow> payload \<Rightarrow> 'db server \<Rightarrow> 'db server" where
  "set_payload c p s = s\<lparr>Payloads := (Payloads s)(c := p)\<rparr>"

definition set_room :: "nat \<Rightarrow> mroom \<Rightarrow> 'db server \<Rightarrow> 'db server" where
  "set_room i room s = s\<lparr>Rooms := (Rooms s)[i := room]\<rparr>"

lemma in_world_simps [simp]:
  "Rooms (in_world f s) = Rooms s" "Db (in_world f s) = Db s"
  "next_user (in_world f s) = next_user s" "Payloads (in_world f s) = Payloads s"
  "World (in_world f s) = f (World s)" "connectionSet (in_world f s) = connectionSet s"
  by (simp_all add: in_world_def)

lemma set_payload_simps [simp]:
  "Rooms (set_payload c p s) = Rooms s" "Db (set_payload c p s) = Db s"
  "next_user (set_payload c p s) = next_user s"
  "Payloads (set_payload c p s) = (Payloads s)(c := p)"
  "World (set_payload c p s) = World s" "connectionSet (set_payload c p s) = connectionSet s"
  by (simp_all add: set_payload_def)

lemma set_room_simps [simp]:
  "Rooms (set_room i r s) = (Rooms s)[i := r]" "Db (set_room i r s) = Db s"
  "next_user (set_room i r s) = next_user s" "Payloads (set_room i r s) = Payloads s"
  "World (set_room i r s) = World s" "connectionSet (set_room i r s) = connectionSet s"
  by (simp_all add: set_room_def)

lemma write_world_simps [simp]:
  "Rooms (snd (write_world f s)) = Rooms s" "Db (snd (write_world f s)) = Db s"
  "next_user (snd (write_world f s)) = next_user s"
  "Payloads (snd (write_world f s)) = Payloads s"
  "World (snd (write_world f s)) = snd (f (World s))"
  "fst (write_world f s) = fst (f (World s))"
  "connectionSet (snd (write_world f s)) = connectionSet s"
  by (simp_all add: write_world_def split_beta)

section \<open>Writing and closing\<close>

lemma write_conn_frame:
  assumes "length data \<le> 65531" "c \<notin> set (net_closed w)" "\<not> net_fail w (net_writes w)"
  shows "write_conn c i data w =
    (None, w\<lparr>net_writes := net_writes w + 1, net_out := net_out w @ [(c, frame i data)]\<rparr>)"
  using assms by (simp add: write_conn_def Conn_Write_spec fits_frame_def tcp_write_def Let_def)

lemma write_conn_keeps [simp]:
  "net_closed (snd (write_conn c i data w)) = net_closed w"
  "net_fail (snd (write_conn c i data w)) = net_fail w"
  "unix_now (snd (write_conn c i data w)) = unix_now w"
  "rand_ints (snd (write_conn c i data w)) = rand_ints w"
  "rand_pos (snd (write_conn c i data w)) = rand_pos w"
  by (auto simp: write_conn_def Conn_Write_spec tcp_write_def Let_def split: prod.splits if_splits)

lemma Conn_Close_keeps [simp]:
  "net_closed (Conn_Close c w) = c # net_closed w"
  "net_fail (Conn_Close c w) = net_fail w"
  "net_out (Conn_Close c w) = net_out w"
  "unix_now (Conn_Close c w) = unix_now w"
  "rand_ints (Conn_Close c w) = rand_ints w"
  "rand_pos (Conn_Close c w) = rand_pos w"
  by (simp_all add: Conn_Close_def)

text \<open>
  What every sequence of writes and closes keeps: the environment is not changed, closed
  connections stay closed and the log only grows.
\<close>

definition wframe :: "world \<Rightarrow> world \<Rightarrow> bool" where
  "wframe w w' \<longleftrightarrow>
     rand_ints w' = rand_ints w \<and> net_fail w' = net_fail w \<and> unix_now w' = unix_now w \<and>
     set (net_closed w) \<subseteq> set (net_closed w') \<and> (\<exists>l. net_out w' = net_out w @ l)"

lemma wframe_refl [simp, intro]: "wframe w w"
  by (simp add: wframe_def)

lemma wframe_trans [trans]: "wframe w w' \<Longrightarrow> wframe w' w'' \<Longrightarrow> wframe w w''"
  by (auto simp: wframe_def)

lemma wframe_write [intro, simp]: "wframe w (snd (write_conn c i data w))"
  by (auto simp: wframe_def write_conn_def Conn_Write_spec tcp_write_def Let_def split: prod.splits if_splits)

lemma wframe_writeD: "write_conn c i data w = (err, w') \<Longrightarrow> wframe w w'"
  by (metis snd_conv wframe_write)

lemma wframe_close [intro, simp]: "wframe w (Conn_Close c w)"
  by (auto simp: wframe_def)

text \<open>A connection on which every write succeeds.\<close>

definition writable :: "conn \<Rightarrow> world \<Rightarrow> bool" where
  "writable c w \<longleftrightarrow> c \<notin> set (net_closed w) \<and> (\<forall>k. \<not> net_fail w k)"

lemma write_conn_writable:
  "writable c w \<Longrightarrow> length data \<le> 65531 \<Longrightarrow> write_conn c i data w =
    (None, w\<lparr>net_writes := net_writes w + 1, net_out := net_out w @ [(c, frame i data)]\<rparr>)"
  by (simp add: writable_def write_conn_frame)

lemma writable_log [simp]:
  "writable c (w\<lparr>net_writes := n, net_out := l\<rparr>) = writable c w"
  by (simp add: writable_def)

end
