(* ===== verification/Pipeline.thy ===== *)
theory Pipeline
  imports Prelude
begin

text \<open>
  \<open>backend/idtcp/middleware.go\<close>: the chain of middlewares around a handler. A context holds
  the list of middleware functions, the final handler and an index; \<open>Next\<close> advances the
  index and calls the middleware there, or the handler behind the last one. A middleware is
  a function of its continuation (the call of \<open>ctx.Next\<close>, which each of them makes at most
  once), so the type variable \<open>'h\<close> stands for the type of the wrapped handler, and the
  three kinds of context (distribute, connect, disconnect) are its instances.
\<close>

section \<open>Contexts\<close>

function Next :: "('h \<Rightarrow> 'h) list \<Rightarrow> 'h \<Rightarrow> int \<Rightarrow> 'h" where
  "Next mdwList handler mdwIdx =
     (let mdwIdx = mdwIdx + 1 in
      if 0 \<le> mdwIdx \<and> mdwIdx < int (length mdwList)
      then (mdwList ! nat mdwIdx) (Next mdwList handler mdwIdx)
      else handler)"
  by pat_completeness auto
termination
  by (relation "measure (\<lambda>(mdwList, handler, mdwIdx). nat (int (length mdwList) - mdwIdx))") auto

declare Next.simps [simp del]

text \<open>\<open>NewDistributeContext(...).Next()\<close> and its siblings: a fresh context starts at -1.\<close>

definition DistributeContext_Next :: "('h \<Rightarrow> 'h) list \<Rightarrow> 'h \<Rightarrow> 'h" where
  "DistributeContext_Next mdwList distribute = Next mdwList distribute (-1)"

definition ConnectContext_Next :: "('h \<Rightarrow> 'h) list \<Rightarrow> 'h \<Rightarrow> 'h" where
  "ConnectContext_Next mdwList connect = Next mdwList connect (-1)"

definition DisconnectContext_Next :: "('h \<Rightarrow> 'h) list \<Rightarrow> 'h \<Rightarrow> 'h" where
  "DisconnectContext_Next mdwList disconnect = Next mdwList disconnect (-1)"

section \<open>The chain is the composition\<close>

lemma Next_drop:
  assumes "-1 \<le> i"
  shows "Next mdwList h i = foldr (\<lambda>m k. m k) (drop (nat (i + 1)) mdwList) h"
  using assms
proof (induction mdwList h i rule: Next.induct)
  case (1 mdwList h i)
  show ?case
  proof (cases "i + 1 < int (length mdwList)")
    case True
    then have lt: "nat (i + 1) < length mdwList" using "1.prems" by linarith
    have "nat (i + 1 + 1) = Suc (nat (i + 1))" using "1.prems" by linarith
    then have "drop (nat (i + 1)) mdwList = mdwList ! nat (i + 1) # drop (nat (i + 1 + 1)) mdwList"
      using Cons_nth_drop_Suc [OF lt] by simp
    moreover have "Next mdwList h (i + 1) = foldr (\<lambda>m k. m k) (drop (nat (i + 1 + 1)) mdwList) h"
      using "1.IH" [OF refl] True "1.prems" by simp
    ultimately show ?thesis
      using True "1.prems" by (simp add: Next.simps [of mdwList h i] Let_def)
  next
    case False
    then show ?thesis by (simp add: Next.simps [of mdwList h i] Let_def)
  qed
qed

lemma Next_compose: "Next mdwList h (-1) = foldr (\<lambda>m k. m k) mdwList h"
  by (simp add: Next_drop)

lemmas context_Next =
  DistributeContext_Next_def ConnectContext_Next_def DisconnectContext_Next_def Next_compose

section \<open>Contracts of handlers and middlewares\<close>

text \<open>
  A handler meets a contract when from every state that satisfies the precondition it
  returns (it does not panic) and its result and new state satisfy the postcondition.
\<close>

definition handles ::
  "('r \<Rightarrow> 's \<Rightarrow> bool) \<Rightarrow> ('r \<Rightarrow> 'a \<Rightarrow> 's \<Rightarrow> bool) \<Rightarrow> ('r \<Rightarrow> 's \<Rightarrow> ('a \<times> 's) option) \<Rightarrow> bool" where
  "handles P Q h \<longleftrightarrow> (\<forall>r s. P r s \<longrightarrow> (\<exists>a s'. h r s = Some (a, s') \<and> Q r a s'))"

lemma handlesI: "(\<And>r s. P r s \<Longrightarrow> \<exists>a s'. h r s = Some (a, s') \<and> Q r a s') \<Longrightarrow> handles P Q h"
  by (auto simp: handles_def)

lemma handlesE:
  assumes "handles P Q h" "P r s"
  obtains a s' where "h r s = Some (a, s')" "Q r a s'"
  using assms unfolding handles_def by blast

text \<open>
  What a middleware promises: around a handler that meets the inner contract it meets the
  outer one. Put in front of a chain that meets the inner contract it makes a longer chain
  that meets the outer one, so the contracts of the middlewares of a list add up.
\<close>

locale contract_middleware =
  fixes mdw :: "('r \<Rightarrow> 's \<Rightarrow> ('a \<times> 's) option) \<Rightarrow> 'r \<Rightarrow> 's \<Rightarrow> ('a \<times> 's) option"
    and inner_pre outer_pre :: "'r \<Rightarrow> 's \<Rightarrow> bool"
    and inner_post outer_post :: "'r \<Rightarrow> 'a \<Rightarrow> 's \<Rightarrow> bool"
  assumes around: "handles inner_pre inner_post h \<Longrightarrow> handles outer_pre outer_post (mdw h)"
begin

lemma around_chain:
  "handles inner_pre inner_post (foldr (\<lambda>m k. m k) ms h) \<Longrightarrow>
   handles outer_pre outer_post (foldr (\<lambda>m k. m k) (mdw # ms) h)"
  by (simp add: around)

lemma around_context:
  "handles inner_pre inner_post (DistributeContext_Next ms h) \<Longrightarrow>
   handles outer_pre outer_post (DistributeContext_Next (mdw # ms) h)"
  by (simp add: context_Next around)

end

section \<open>Properties\<close>

text \<open>
  A context runs its middlewares from the first to the last, each around the next,
  and the handler innermost: the index loop of Next is the composition of the list.
\<close>

theorem contexts_compose:
  "DistributeContext_Next ms h = foldr (\<lambda>m k. m k) ms h \<and>
   ConnectContext_Next ms h' = foldr (\<lambda>m k. m k) ms h' \<and>
   DisconnectContext_Next ms h'' = foldr (\<lambda>m k. m k) ms h''"
  by (simp add: context_Next)

end
