(* ===== verification/MdwFatal.thy ===== *)
theory MdwFatal
  imports ServerState Pipeline
begin

text \<open>
  \<open>backend/middlewares/mdwfatal/middleware.go\<close>: the outermost middleware. It reads fatal
  errors that a client reports, and turns an error of type \<open>Execution\<close> that comes out of the
  inner handlers into a fatal-error frame and a closed connection. It runs before the user
  middleware has authenticated anybody.
\<close>

section \<open>Operations\<close>

record fatal_mdw =
  s_FatalError :: u16
  c_FatalError :: u16

definition fatal_NewMiddleware :: "u16 \<Rightarrow> u16 \<Rightarrow> fatal_mdw" where
  "fatal_NewMiddleware s c = \<lparr>s_FatalError = s, c_FatalError = c\<rparr>"

definition NewExecution :: "conn \<Rightarrow> int \<Rightarrow> gostring \<Rightarrow> execution" where
  "NewExecution c errorId message = (c, errorId, message)"

text \<open>An execution as the \<open>error\<close> value that handlers return.\<close>

fun exec_error :: "execution \<Rightarrow> go_error" where
  "exec_error (c, errorId, message) = Execution c errorId message"

text \<open>The connection is closed when the function returns, on every path.\<close>

fun processExecution :: "fatal_mdw \<Rightarrow> execution \<Rightarrow> world \<Rightarrow> world" where
  "processExecution m (c, errorId, message) w =
     (let s = WriteInt32 errorId fresh_serializer in
      case WriteString8 message s of
        (Some err, s) \<Rightarrow> Conn_Close c w
      | (None, s) \<Rightarrow> Conn_Close c (snd (write_conn c (c_FatalError m) (raw s) w)))"

text \<open>The loop runs from \<open>Front()\<close> while the element is not \<open>Back()\<close>.\<close>

fun processExecutions :: "fatal_mdw \<Rightarrow> execution list \<Rightarrow> world \<Rightarrow> world" where
  "processExecutions m (e # e' # es) w = processExecutions m (e' # es) (processExecution m e w)"
| "processExecutions m es w = w"

text \<open>
  The client's report. The payload of a request has no spare capacity; the connection is
  closed when the function returns.
\<close>

definition receiveFatalError :: "conn \<Rightarrow> bytes \<Rightarrow> world \<Rightarrow> world option" where
  "receiveFatalError c data w = do {
     (errorId, s) \<leftarrow> ReadInt32 (MakeSerializer data []);
     case errorId of
       Inl err \<Rightarrow> Some (Conn_Close c w)
     | Inr errorId \<Rightarrow> do {
         (message, s) \<leftarrow> ReadString8 s;
         Some (Conn_Close c w)
       }
   }"

text \<open>What both ProcessConnect and ProcessDistribute do with the result of the inner call.\<close>

definition report_error :: "fatal_mdw \<Rightarrow> go_error option \<Rightarrow> world \<Rightarrow> world" where
  "report_error m err w =
     (case err of
        Some (Execution c errorId message) \<Rightarrow> processExecution m (c, errorId, message) w
      | _ \<Rightarrow> w)"

definition fatal_ProcessDistribute :: "fatal_mdw \<Rightarrow> 'db handler \<Rightarrow> 'db handler" where
  "fatal_ProcessDistribute m next ctx s = do {
     w \<leftarrow> (if Instruction ctx = s_FatalError m
           then receiveFatalError (Conn ctx) (Data ctx) (World s) else Some (World s));
     let s = s\<lparr>World := w\<rparr>;
     (err, s) \<leftarrow> next ctx s;
     let s = in_world (report_error m err) s;
     let s = in_world (processExecutions m (Executions (Payloads s (Conn ctx)))) s;
     Some (err, s)
   }"

text \<open>
  The payloads of a connection that is being accepted are not yet looked up by the
  connection, so the connect chain carries them.
\<close>

type_synonym 'db connecting =
  "unit \<Rightarrow> payload \<times> 'db server \<Rightarrow> ((conn \<times> go_error option) \<times> payload \<times> 'db server) option"

definition fatal_ProcessConnect :: "fatal_mdw \<Rightarrow> 'db connecting \<Rightarrow> 'db connecting" where
  "fatal_ProcessConnect m next ctx ps = do {
     ((c, err), (p, s)) \<leftarrow> next ctx ps;
     let s = in_world (report_error m err) s;
     let s = in_world (processExecutions m (Executions p)) s;
     Some ((c, err), (p, s))
   }"

type_synonym 'db disconnecting = "conn \<Rightarrow> 'db server \<Rightarrow> (unit \<times> 'db server) option"

definition fatal_ProcessDisconnect :: "fatal_mdw \<Rightarrow> 'db disconnecting \<Rightarrow> 'db disconnecting" where
  "fatal_ProcessDisconnect m next ctx s = next ctx s"

text \<open>The key of a middleware is its position in the list; its payload starts empty.\<close>

definition fatal_NewPayload :: "execution list" where
  "fatal_NewPayload = []"

section \<open>The fatal-error frame\<close>

text \<open>The payload of a fatal error is an \<open>int32\<close> followed by a short string.\<close>

interpretation fatal_codec: codec_pair
  "\<lambda>v. le_put 4 (word_of_int v :: u32)" is_int32 "\<lambda>v s. (None, WriteInt32 v s)" ReadInt32
  enc8 fits8 WriteBytes8 ReadBytes8
  by (intro codec_pair.intro int32_codec.field_codec_axioms bytes8_codec.field_codec_axioms)

definition fatal_payload :: "int \<Rightarrow> gostring \<Rightarrow> bytes" where
  "fatal_payload errorId message = le_put 4 (word_of_int errorId :: u32) @ enc8 message"

lemma WriteString8_outcome:
  "WriteString8 message s =
    (if fits8 message then (None, append_raw (enc8 message) s)
     else (Some (ErrText ''val >= 256 || val < 0''), s))"
proof (cases "fits8 message")
  case True
  then show ?thesis using bytes8_codec.write_ok [OF True, of s] by (simp add: WriteString_eq)
next
  case False
  then show ?thesis by (simp add: WriteString_eq WriteBytes8_def WriteUint8_Int_def)
qed

lemma processExecution_outcome:
  "processExecution m (c, errorId, message) w =
    Conn_Close c (if fits8 message
      then snd (write_conn c (c_FatalError m) (fatal_payload errorId message) w) else w)"
  by (simp add: WriteString8_outcome Let_def WriteInt32_def WriteUint32_def fresh_serializer_def
      append_raw_def fatal_payload_def)

declare processExecution.simps [simp del]

text \<open>Reading a report back: every outcome of the client's payload.\<close>

lemma receiveFatalError_outcome:
  "receiveFatalError c data w =
    (if length data < 4 \<or> 4 < length data \<and> length data < 5 + unat (data ! 4)
     then panic else Some (Conn_Close c w))"
proof (cases "length data < 4")
  case True
  then show ?thesis by (simp add: receiveFatalError_def ReadInt32_outcome MakeSerializer_def cap_def)
next
  case False
  then obtain n where r: "ReadInt32 (MakeSerializer data []) = Some (Inr n, advance 4 (MakeSerializer data []))"
    by (simp add: ReadInt32_outcome MakeSerializer_def cap_def)
  have sel: "raw (MakeSerializer data []) = data" "scursor (MakeSerializer data []) = 0"
    "cap (advance 4 (MakeSerializer data [])) = int (length data)"
    by (simp_all add: MakeSerializer_def cap_def)
  define k where "k = unat (data ! 4)"
  have k: "uint (data ! 4) = int k" by (simp add: k_def)
  define s where "s = advance 4 (MakeSerializer data [])"
  have str: "ReadString8 s =
    (if length data \<le> 4 then Some (Inr [], s)
     else if length data < 5 + k then panic
     else Some (Inr (window s 5 k), advance (int k + 1) s))"
    unfolding s_def by (simp add: ReadString8_outcome sel k Let_def)
  show ?thesis
    unfolding k_def [symmetric] using False
    by (simp add: receiveFatalError_def r s_def [symmetric] str)
qed

text \<open>The frames of a list of executions.\<close>

lemma processExecutions_butlast:
  "processExecutions m es w = fold (processExecution m) (butlast es) w"
  by (induction m es w rule: processExecutions.induct) auto

lemma processExecution_wframe: "wframe w (processExecution m e w)"
  by (cases e) (auto simp: processExecution_outcome intro: wframe_trans)

lemma processExecutions_wframe: "wframe w (processExecutions m es w)"
proof (induction m es w rule: processExecutions.induct)
  case (1 m e e' es w)
  then show ?case using wframe_trans [OF processExecution_wframe] by simp
qed simp_all

lemma report_error_wframe: "wframe w (report_error m err w)"
  by (auto simp: report_error_def processExecution_wframe split: option.splits go_error.splits)

text \<open>One execution on a connection that takes the write.\<close>

lemma processExecution_reports:
  assumes "is_int32 errorId" "length message < 256"
    and "c \<notin> set (net_closed w)" "\<not> net_fail w (net_writes w)"
  shows "net_out (processExecution m (c, errorId, message) w) =
      net_out w @ [(c, frame (c_FatalError m) (fatal_payload errorId message))] \<and>
    net_closed (processExecution m (c, errorId, message) w) = c # net_closed w \<and>
    (\<exists>s. read_pair ReadInt32 ReadString8 (MakeSerializer (fatal_payload errorId message) []) =
      Some (Inr (errorId, message), s))"
proof -
  let ?d = "fatal_payload errorId message"
  have "length ?d \<le> 65531" using assms(2) by (simp add: fatal_payload_def enc8_def)
  note wr = write_conn_frame [OF this assms(3,4), of "c_FatalError m"]
  have "read_pair ReadInt32 ReadString8 (MakeSerializer ?d []) =
      Some (Inr (errorId, message), advance (int (length ?d)) (MakeSerializer ?d []))"
    using fatal_codec.pair.read_ok [of "(errorId, message)" "MakeSerializer ?d []" "[]" "[]"] assms(1,2)
    by (simp add: ReadString_eq fatal_payload_def MakeSerializer_def)
  then show ?thesis using assms(2) wr by (auto simp: processExecution_outcome)
qed

text \<open>A server without rooms where connection 7 is closed.\<close>

definition refusing_server :: "unit server" where
  "refusing_server =
     \<lparr>Rooms = [], Db = (), next_user = 0, Payloads = \<lambda>_. \<lparr>PUser = None, PRoom = None, Executions = []\<rparr>,
      World = \<lparr>net_out = [], net_closed = [7], net_fail = \<lambda>_. False, net_writes = 5, unix_now = 0,
        rand_ints = \<lambda>_. None, rand_pos = 0\<rparr>, connectionSet = [3]\<rparr>"

section \<open>Properties\<close>

text \<open>
  Claim C33. A fatal error reaches the client before the connection is closed: when the
  handlers behind the fatal-error middleware return an execution error for a connection that
  takes the write, ProcessDistribute writes one frame with the fatal-error instruction to
  that connection, right after what the handlers wrote, then closes the connection, and
  passes the error on. The readers of the serializer give the error number and the message
  back from the payload of the frame. Nothing else is written or closed unless the
  connection has collected two executions or more.
\<close>

theorem fatal_error_is_reported:
  assumes "Instruction ctx \<noteq> s_FatalError m"
    and "next ctx s = Some (Some (Execution c errorId message), s1)"
    and "is_int32 errorId" "length message < 256"
    and "c \<notin> set (net_closed (World s1))" "\<not> net_fail (World s1) (net_writes (World s1))"
  shows "\<exists>s' data log sr.
    fatal_ProcessDistribute m next ctx s = Some (Some (Execution c errorId message), s') \<and>
    net_out (World s') = net_out (World s1) @ (c, frame (c_FatalError m) data) # log \<and>
    c \<in> set (net_closed (World s')) \<and>
    (length (Executions (Payloads s1 (Conn ctx))) \<le> 1 \<longrightarrow> log = [] \<and> net_closed (World s') = c # net_closed (World s1)) \<and>
    read_pair ReadInt32 ReadString8 (MakeSerializer data []) = Some (Inr (errorId, message), sr)"
proof -
  let ?es = "Executions (Payloads s1 (Conn ctx))" and ?d = "fatal_payload errorId message"
  let ?w = "processExecution m (c, errorId, message) (World s1)"
  obtain sr where w: "net_out ?w = net_out (World s1) @ [(c, frame (c_FatalError m) ?d)]"
    "net_closed ?w = c # net_closed (World s1)"
    "read_pair ReadInt32 ReadString8 (MakeSerializer ?d []) = Some (Inr (errorId, message), sr)"
    using processExecution_reports [OF assms(3-6)] by blast
  have f: "wframe ?w (processExecutions m ?es ?w)" by (rule processExecutions_wframe)
  then obtain log where log: "net_out (processExecutions m ?es ?w) = net_out ?w @ log" by (auto simp: wframe_def)
  have "processExecutions m ?es ?w = ?w" if "length ?es \<le> 1"
    using that by (cases ?es rule: list.exhaust) (simp_all add: processExecutions_butlast)
  then have few: "length ?es \<le> 1 \<longrightarrow> log = [] \<and> net_closed (processExecutions m ?es ?w) = net_closed ?w"
    using log by auto
  have "fatal_ProcessDistribute m next ctx s =
      Some (Some (Execution c errorId message), s1\<lparr>World := processExecutions m ?es ?w\<rparr>)"
    using assms(1,2) by (simp add: fatal_ProcessDistribute_def report_error_def in_world_def Let_def)
  then show ?thesis
    using w f log few unfolding wframe_def
    by (intro exI [of _ "s1\<lparr>World := processExecutions m ?es ?w\<rparr>"] exI [of _ ?d] exI [of _ log] exI [of _ sr]) auto
qed

text \<open>A handler that refuses the request of connection 3, as the user middleware does.\<close>

theorem fatal_error_is_reported_witness:
  "\<exists>s' data sr. fatal_ProcessDistribute (fatal_NewMiddleware 0 0)
      (\<lambda>ctx s. Some (Some (exec_error (NewExecution (Conn ctx) (-1) (lit ''no''))), s))
      \<lparr>Instruction = 5, Data = [], Conn = 3\<rparr> refusing_server = Some (Some (Execution 3 (-1) (lit ''no'')), s') \<and>
    net_out (World s') = [(3, frame 0 data)] \<and> net_closed (World s') = [3, 7] \<and>
    read_pair ReadInt32 ReadString8 (MakeSerializer data []) = Some (Inr (-1, lit ''no''), sr)"
  using fatal_error_is_reported [of "\<lparr>Instruction = 5, Data = [], Conn = 3\<rparr>" "fatal_NewMiddleware 0 0"
      "\<lambda>ctx s. Some (Some (exec_error (NewExecution (Conn ctx) (-1) (lit ''no''))), s)"
      refusing_server 3 "-1" "lit ''no''" refusing_server]
  by (auto simp: is_int32_def fatal_NewMiddleware_def NewExecution_def refusing_server_def)

text \<open>
  A report of a fatal error can crash the server, and nothing has authenticated
  its sender: the handler panics exactly on a payload of fewer than four bytes and on one
  whose message is shorter than its length byte says. Every other payload closes the
  connection of the sender and changes nothing else.
\<close>

lemma receiveFatalError_panics_iff:
  "receiveFatalError c data w =
    (if length data < 4 \<or> 4 < length data \<and> length data < 5 + unat (data ! 4)
     then None else Some (Conn_Close c w))"
  by (rule receiveFatalError_outcome)

text \<open>
  The loop over the collected executions leaves out the last one: processing a
  list is processing all its elements but the last, so a single collected execution is
  never reported.
\<close>

lemma processExecutions_skips_the_last:
  "processExecutions m (es @ [e]) w = fold (processExecution m) es w"
  by (simp add: processExecutions_butlast)

end
