(* ===== verification/Encryption.thy ===== *)
theory Encryption
  imports Idtcp
begin

text \<open>
  \<open>backend/utils/encryption.go\<close> and the password hashes of
  \<open>backend/middlewares/mdwuser/database.go\<close>. The key derivation of \<open>golang.org/x/crypto/pbkdf2\<close>
  and the digest of \<open>crypto/md5\<close> are parameters; the base64 encoding and the splitting of a
  stored hash at its dollar signs are modelled. The lemmas show that a stored hash verifies
  exactly the passwords with the same derived key, and that the salts of the program never
  contain the separator.
\<close>

section \<open>Random strings and the legacy digest\<close>

definition letters :: bytes where
  "letters = lit ''abcdefghijklmnopqrstuvwxyzABCDEFGHIJKLMNOPQRSTUVWXYZ''"

text \<open>\<open>rand.Int\<close>: a number below the bound, or the error of the random source.\<close>

definition rand_Int :: "int \<Rightarrow> world \<Rightarrow> (go_error + int) \<times> world" where
  "rand_Int bound w =
     ((case rand_ints w (rand_pos w) of None \<Rightarrow> Inl ErrIO | Some i \<Rightarrow> Inr (i mod bound)),
      w\<lparr>rand_pos := rand_pos w + 1\<rparr>)"

text \<open>The loop fills \<open>n\<close> runes, all of one byte; an error of the random source panics.\<close>

fun RandomString :: "nat \<Rightarrow> world \<Rightarrow> (gostring \<times> world) option" where
  "RandomString 0 w = Some ([], w)"
| "RandomString (Suc n) w =
     (case rand_Int (int (length letters)) w of
        (Inl err, w) \<Rightarrow> panic
      | (Inr randNum, w) \<Rightarrow> do {
          b \<leftarrow> at_idx letters randNum;
          (bs, w) \<leftarrow> RandomString n w;
          Some (b # bs, w)
        })"

fun repeat_sum :: "(bytes \<Rightarrow> bytes) \<Rightarrow> nat \<Rightarrow> bytes \<Rightarrow> bytes" where
  "repeat_sum h 0 res = res"
| "repeat_sum h (Suc n) res = repeat_sum h n (h res)"

definition hex_digit :: "nat \<Rightarrow> byte" where
  "hex_digit n = lit ''0123456789abcdef'' ! n"

definition hex_EncodeToString :: "bytes \<Rightarrow> gostring" where
  "hex_EncodeToString bs = concat (map (\<lambda>b. [hex_digit (unat b div 16), hex_digit (unat b mod 16)]) bs)"

definition UpdatePassword :: "(bytes \<Rightarrow> bytes) \<Rightarrow> gostring \<Rightarrow> gostring \<Rightarrow> gostring" where
  "UpdatePassword md5 password salt =
     (let res = md5 (salt @ password); res = repeat_sum md5 100 res in hex_EncodeToString res)"

section \<open>Base64\<close>

definition b64_alphabet :: bytes where
  "b64_alphabet = lit ''ABCDEFGHIJKLMNOPQRSTUVWXYZabcdefghijklmnopqrstuvwxyz0123456789+/''"

definition b64_char :: "nat \<Rightarrow> byte" where
  "b64_char n = b64_alphabet ! n"

definition b64_pad :: byte where "b64_pad = 0x3D"

text \<open>The four 6-bit digits of three bytes.\<close>

definition b64_digits :: "byte \<Rightarrow> byte \<Rightarrow> byte \<Rightarrow> nat list" where
  "b64_digits a b c =
     (let n = unat a * 65536 + unat b * 256 + unat c
      in [n div 262144, n div 4096 mod 64, n div 64 mod 64, n mod 64])"

fun b64_encode :: "bytes \<Rightarrow> bytes" where
  "b64_encode (a # b # c # rest) = map b64_char (b64_digits a b c) @ b64_encode rest"
| "b64_encode [a, b] = map b64_char (take 3 (b64_digits a b 0)) @ [b64_pad]"
| "b64_encode [a] = map b64_char (take 2 (b64_digits a 0 0)) @ [b64_pad, b64_pad]"
| "b64_encode [] = []"

section \<open>Password hashes\<close>

text \<open>\<open>pbkdf2.Key(password, salt, iterations, 32, sha256.New)\<close> is the parameter \<open>kdf\<close>.\<close>

type_synonym kdf = "bytes \<Rightarrow> bytes \<Rightarrow> nat \<Rightarrow> nat \<Rightarrow> bytes"

definition dollar :: byte where "dollar = 0x24"

definition hasher_encode :: "kdf \<Rightarrow> bytes \<Rightarrow> bytes \<Rightarrow> gostring" where
  "hasher_encode kdf password salt =
     (let hash = kdf password salt 720000 32;
          hash_str = b64_encode hash
      in lit ''pbkdf2'' @ [dollar] @ lit ''720000'' @ [dollar] @ salt @ [dollar] @ hash_str)"

text \<open>\<open>strings.Split\<close> at one byte.\<close>

fun split_at :: "byte \<Rightarrow> bytes \<Rightarrow> bytes list" where
  "split_at sep [] = [[]]"
| "split_at sep (b # bs) =
     (if b = sep then [] # split_at sep bs
      else case split_at sep bs of [] \<Rightarrow> [[b]] | w # ws \<Rightarrow> (b # w) # ws)"

definition hasher_verify :: "kdf \<Rightarrow> bytes \<Rightarrow> gostring \<Rightarrow> bool option" where
  "hasher_verify kdf password encoded = do {
     salt \<leftarrow> at_idx (split_at dollar encoded) 2;
     let encoded_2 = hasher_encode kdf password salt;
     Some (encoded = encoded_2)
   }"

section \<open>Random strings\<close>

lemma rand_Int_frame [simp]: "rand_ints (snd (rand_Int n w)) = rand_ints w"
  by (simp add: rand_Int_def)

lemma dollar_letters: "dollar \<notin> set letters"
  by (simp add: letters_def lit_def dollar_def)

definition rand_ok :: "world \<Rightarrow> bool" where
  "rand_ok w \<longleftrightarrow> (\<forall>k. rand_ints w k \<noteq> None)"

lemma RandomString_returns:
  assumes "rand_ok w"
  shows "\<exists>bs. RandomString n w = Some (bs, w\<lparr>rand_pos := rand_pos w + n\<rparr>) \<and> length bs = n \<and> set bs \<subseteq> set letters"
  using assms
proof (induction n arbitrary: w)
  case 0
  then show ?case by simp
next
  case (Suc n)
  obtain i where i: "rand_ints w (rand_pos w) = Some i"
    using Suc.prems by (auto simp: rand_ok_def)
  let ?k = "i mod int (length letters)"
  have pos: "0 < int (length letters)" by (simp add: letters_def)
  have k: "0 \<le> ?k" "?k < int (length letters)" using pos by simp_all
  then have mem: "letters ! nat ?k \<in> set letters" by (intro nth_mem) linarith
  have "rand_ok (w\<lparr>rand_pos := rand_pos w + 1\<rparr>)" using Suc.prems by (simp add: rand_ok_def)
  from Suc.IH [OF this] obtain bs where
    "RandomString n (w\<lparr>rand_pos := rand_pos w + 1\<rparr>) = Some (bs, w\<lparr>rand_pos := rand_pos w + 1 + n\<rparr>)"
    "length bs = n" "set bs \<subseteq> set letters"
    by auto
  then show ?case using i k mem by (simp add: rand_Int_def)
qed

lemma RandomString_letters:
  "RandomString n w = Some (bs, w') \<Longrightarrow>
   length bs = n \<and> set bs \<subseteq> set letters \<and> w' = w\<lparr>rand_pos := rand_pos w + n\<rparr>"
proof (induction n arbitrary: w bs w')
  case 0
  then show ?case by simp
next
  case (Suc n)
  then obtain k w1 bs1 where
    "w1 = w\<lparr>rand_pos := rand_pos w + 1\<rparr>"
    "0 \<le> k" "k < int (length letters)" "RandomString n w1 = Some (bs1, w')" "bs = letters ! nat k # bs1"
    by (auto simp: bind_eq_Some_conv at_idx_def rand_Int_def split: prod.splits sum.splits option.splits if_splits)
  moreover from this have "letters ! nat k \<in> set letters" by (intro nth_mem) linarith
  ultimately show ?case using Suc.IH by fastforce
qed

section \<open>Base64 is injective\<close>

lemma b64_alphabet_facts:
  "length b64_alphabet = 64" "distinct b64_alphabet" "b64_pad \<notin> set b64_alphabet"
  "dollar \<notin> set b64_alphabet"
  by (code_simp)+

lemma b64_char_inj: "i < 64 \<Longrightarrow> j < 64 \<Longrightarrow> b64_char i = b64_char j \<longleftrightarrow> i = j"
  by (simp add: b64_char_def nth_eq_iff_index_eq b64_alphabet_facts)

lemma b64_char_pad: "i < 64 \<Longrightarrow> b64_char i \<noteq> b64_pad \<and> b64_pad \<noteq> b64_char i"
  using b64_alphabet_facts nth_mem [of i b64_alphabet] by (metis b64_char_def)

lemma byte_bound: "unat (b :: byte) < 256"
  using unsigned_less [of b] by simp

lemma b64_digits_bound: "\<forall>d \<in> set (b64_digits a b c). d < 64"
  using byte_bound [of a] byte_bound [of b] byte_bound [of c] by (auto simp: b64_digits_def Let_def)

lemma base_split:
  fixes x y :: nat
  assumes "x * 256 + y = x' * 256 + y'" "y < 256" "y' < 256"
  shows "x = x' \<and> y = y'"
  using arg_cong [OF assms(1), of "\<lambda>n. n div 256"] arg_cong [OF assms(1), of "\<lambda>n. n mod 256"] assms(2,3)
  by simp

lemma base64_join:
  fixes n :: nat
  shows "n = ((n div 262144 * 64 + n div 4096 mod 64) * 64 + n div 64 mod 64) * 64 + n mod 64"
proof -
  have "n div 64 div 64 = n div 4096" "n div 4096 div 64 = n div 262144"
    by (simp_all flip: div_mult2_eq)
  then show ?thesis by (metis div_mult_mod_eq)
qed

lemma b64_digits_inj:
  assumes "b64_digits a b c = b64_digits a' b' c'"
  shows "a = a' \<and> b = b' \<and> c = c'"
proof -
  let ?n = "\<lambda>a b c. unat a * 65536 + unat b * 256 + unat (c :: byte) :: nat"
  have "?n a b c = ?n a' b' c'"
    using assms base64_join [of "?n a b c"] base64_join [of "?n a' b' c'"]
    by (simp only: b64_digits_def Let_def list.inject)
  then have "(unat a * 256 + unat b) * 256 + unat c = (unat a' * 256 + unat b') * 256 + unat c'"
    by (simp add: algebra_simps)
  from base_split [OF this byte_bound byte_bound] have "unat a * 256 + unat b = unat a' * 256 + unat b'"
    "unat c = unat c'" by simp_all
  with base_split [OF this(1) byte_bound byte_bound] show ?thesis
    by (simp add: word_unat_eq_iff)
qed

lemma b64_map_inj:
  "\<forall>d \<in> set ds. d < 64 \<Longrightarrow> \<forall>d \<in> set ds'. d < 64 \<Longrightarrow> map b64_char ds = map b64_char ds' \<Longrightarrow> ds = ds'"
  by (rule map_inj_on [of b64_char]) (auto intro!: inj_onI simp: b64_char_inj)

text \<open>The digits of the first group decide how many bytes it has and which.\<close>

lemma b64_group_simps:
  obtains d1 d2 d3 d4 where "b64_digits a b c = [d1, d2, d3, d4]"
    "d1 < 64" "d2 < 64" "d3 < 64" "d4 < 64"
proof -
  obtain d1 d2 d3 d4 where d: "b64_digits a b c = [d1, d2, d3, d4]"
    by (simp add: b64_digits_def Let_def)
  then show ?thesis using b64_digits_bound [of a b c] that by simp
qed

lemma b64_low_digits:
  "b64_digits a b 0 = take 3 (b64_digits a b 0) @ [0]"
  "b64_digits a 0 0 = take 2 (b64_digits a 0 0) @ [0, 0]"
proof -
  have m: "(x * 65536 + y * 256) mod 64 = 0" for x y :: nat
  proof -
    have "x * 65536 + y * 256 = 64 * (x * 1024 + y * 4)" by simp
    then show ?thesis by (metis mod_mult_self1_is_0)
  qed
  have "x * 65536 div 64 mod 64 = 0" for x :: nat
  proof -
    have "x * 65536 = 64 * (64 * (x * 16))" by simp
    then have "x * 65536 div 64 = 64 * (x * 16)" by (metis nonzero_mult_div_cancel_left zero_neq_numeral)
    then show ?thesis by (metis mod_mult_self1_is_0)
  qed
  note z = this m
  have t: "take 3 [p, q, r, 0] @ [0] = [p, q, r, 0]" "take 2 [p, q, 0, 0] @ [0, 0] = [p, q, 0, 0]"
    for p q r :: nat by (simp_all add: numeral_2_eq_2 numeral_3_eq_3)
  have u: "unat (0 :: byte) = 0" "0 * (256::nat) = 0" "(x::nat) + 0 = x" for x by simp_all
  show "b64_digits a b 0 = take 3 (b64_digits a b 0) @ [0]"
    unfolding b64_digits_def Let_def u z t ..
  show "b64_digits a 0 0 = take 2 (b64_digits a 0 0) @ [0, 0]"
    unfolding b64_digits_def Let_def u z m [of _ 0, unfolded u] t ..
qed

text \<open>Comparing the encodings of two groups of three, two and one bytes.\<close>

lemma b64_same_group:
  "map b64_char (b64_digits a b c) @ x = map b64_char (b64_digits a' b' c') @ y \<longleftrightarrow>
    a = a' \<and> b = b' \<and> c = c' \<and> x = y"
  "map b64_char (take 3 (b64_digits a b 0)) = map b64_char (take 3 (b64_digits a' b' 0)) \<longleftrightarrow>
    a = a' \<and> b = b'"
  "map b64_char (take 2 (b64_digits a 0 0)) = map b64_char (take 2 (b64_digits a' 0 0)) \<longleftrightarrow> a = a'"
proof -
  have same: "ds = ds'" if "map b64_char ds = map b64_char ds'" "set ds \<subseteq> set (b64_digits a b c)"
    "set ds' \<subseteq> set (b64_digits a' b' c')" for ds ds' a b c a' b' c'
    using that b64_digits_bound [of a b c] b64_digits_bound [of a' b' c'] by (intro b64_map_inj) blast+
  have len: "length (b64_digits a b c) = 4" for a b c by (simp add: b64_digits_def Let_def)
  show "map b64_char (b64_digits a b c) @ x = map b64_char (b64_digits a' b' c') @ y \<longleftrightarrow>
      a = a' \<and> b = b' \<and> c = c' \<and> x = y"
    using same [of "b64_digits a b c" "b64_digits a' b' c'" a b c a' b' c'] b64_digits_inj [of a b c a' b' c']
    by (auto simp: len)
  show "map b64_char (take 3 (b64_digits a b 0)) = map b64_char (take 3 (b64_digits a' b' 0)) \<longleftrightarrow>
      a = a' \<and> b = b'"
  proof
    assume "map b64_char (take 3 (b64_digits a b 0)) = map b64_char (take 3 (b64_digits a' b' 0))"
    then have "take 3 (b64_digits a b 0) = take 3 (b64_digits a' b' 0)"
      by (rule same) (rule set_take_subset)+
    then have "b64_digits a b 0 = b64_digits a' b' 0"
      using b64_low_digits(1) [of a b] b64_low_digits(1) [of a' b'] by argo
    then show "a = a' \<and> b = b'" using b64_digits_inj by blast
  qed simp
  show "map b64_char (take 2 (b64_digits a 0 0)) = map b64_char (take 2 (b64_digits a' 0 0)) \<longleftrightarrow> a = a'"
  proof
    assume "map b64_char (take 2 (b64_digits a 0 0)) = map b64_char (take 2 (b64_digits a' 0 0))"
    then have "take 2 (b64_digits a 0 0) = take 2 (b64_digits a' 0 0)"
      by (rule same) (rule set_take_subset)+
    then have "b64_digits a 0 0 = b64_digits a' 0 0"
      using b64_low_digits(2) [of a] b64_low_digits(2) [of a'] by argo
    then show "a = a'" using b64_digits_inj by blast
  qed simp
qed

text \<open>Groups of different sizes differ where one is padded and the other is not.\<close>

lemma b64_other_group:
  "map b64_char (b64_digits a b c) @ x \<noteq> map b64_char (take 3 (b64_digits a' b' c')) @ [b64_pad]"
  "map b64_char (b64_digits a b c) @ x \<noteq> map b64_char (take 2 (b64_digits a' b' c')) @ [b64_pad, b64_pad]"
  "map b64_char (take 3 (b64_digits a b c)) @ [b64_pad] \<noteq>
    map b64_char (take 2 (b64_digits a' b' c')) @ [b64_pad, b64_pad]"
  by (rule b64_group_simps [of a b c]; rule b64_group_simps [of a' b' c'];
      simp add: numeral_2_eq_2 numeral_3_eq_3 b64_char_pad)+

lemmas b64_groups = b64_same_group b64_other_group b64_other_group [symmetric]

lemma b64_digits_nonempty [simp]: "take (Suc n) (b64_digits a b c) \<noteq> []" "b64_digits a b c \<noteq> []"
  by (simp_all add: b64_digits_def Let_def)

lemma b64_encode_inj: "b64_encode xs = b64_encode ys \<Longrightarrow> xs = ys"
proof (induction xs arbitrary: ys rule: b64_encode.induct)
  case (1 a b c rest)
  then show ?case by (cases ys rule: b64_encode.cases) (auto simp: b64_groups)
next
  case (2 a b)
  then show ?case by (cases ys rule: b64_encode.cases) (auto simp: b64_groups)
next
  case (3 a)
  then show ?case by (cases ys rule: b64_encode.cases) (auto simp: b64_groups)
next
  case 4
  then show ?case by (cases ys rule: b64_encode.cases) auto
qed

section \<open>Hashes\<close>

lemma split_at_free: "sep \<notin> set a \<Longrightarrow> split_at sep (a @ sep # b) = a # split_at sep b"
  by (induction a) auto

lemma split_at_count: "length (split_at sep bs) = count_list bs sep + 1"
  by (induction bs) (auto split: list.splits)

lemma hash_prefix_free: "dollar \<notin> set (lit ''pbkdf2'')" "dollar \<notin> set (lit ''720000'')"
  by (simp_all add: lit_def dollar_def)

text \<open>The three fields before the digest of a stored hash.\<close>

lemma split_hash:
  "dollar \<notin> set salt \<Longrightarrow>
   split_at dollar (hasher_encode kdf p salt) = lit ''pbkdf2'' # lit ''720000'' # salt # split_at dollar (b64_encode (kdf p salt 720000 32))"
  by (simp add: hasher_encode_def Let_def split_at_free hash_prefix_free)

lemma verify_encode:
  assumes "dollar \<notin> set salt"
  shows "hasher_verify kdf q (hasher_encode kdf p salt) =
    Some (kdf q salt 720000 32 = kdf p salt 720000 32)"
proof -
  have "at_idx (split_at dollar (hasher_encode kdf p salt)) 2 = Some salt"
    by (simp add: split_hash [OF assms] at_idx_def numeral_2_eq_2)
  moreover have "hasher_encode kdf p salt = hasher_encode kdf q salt \<longleftrightarrow>
      kdf q salt 720000 32 = kdf p salt 720000 32"
    using b64_encode_inj by (auto simp: hasher_encode_def Let_def)
  ultimately show ?thesis by (simp add: hasher_verify_def)
qed

text \<open>A stored value that the verifier can read.\<close>

definition wf_hash :: "gostring \<Rightarrow> bool" where
  "wf_hash h \<longleftrightarrow> 2 \<le> count_list h dollar"

lemma verify_returns: "hasher_verify kdf p h = None \<longleftrightarrow> \<not> wf_hash h"
  by (auto simp: hasher_verify_def at_idx_def split_at_count wf_hash_def bind_eq_None_conv split: option.splits)

lemma encode_wf: "wf_hash (hasher_encode kdf p salt)"
  by (simp add: wf_hash_def hasher_encode_def Let_def)

section \<open>Properties\<close>

text \<open>
  A stored hash verifies exactly the right passwords: with any salt that the
  random source gives, verifying a password against the hash of another one returns whether
  the two derive the same key, and in particular always accepts the password itself. No
  part of the encoding (base64, the separators, the salt) merges two different keys.
\<close>

lemma verify_accepts_same_key:
  assumes "RandomString 16 w = Some (salt, w')"
  shows "hasher_verify kdf q (hasher_encode kdf p salt) =
      Some (kdf q salt 720000 32 = kdf p salt 720000 32) \<and>
    hasher_verify kdf p (hasher_encode kdf p salt) = Some True"
proof -
  have "dollar \<notin> set salt" using RandomString_letters [OF assms] dollar_letters by blast
  then show ?thesis by (simp add: verify_encode)
qed

text \<open>
  The verifier panics exactly on a stored value with fewer than two dollar signs:
  a password column that this program did not write can take the server down, a value that
  it wrote cannot.
\<close>

lemma verify_panics_iff:
  "(hasher_verify kdf p h = None \<longleftrightarrow> count_list h dollar < 2) \<and>
   hasher_verify kdf p (hasher_encode kdf q salt) \<noteq> None"
  by (simp add: verify_returns wf_hash_def encode_wf [unfolded wf_hash_def] not_less not_le)

end
