(* ===== verification/MdwUser.thy ===== *)
theory MdwUser
  imports MdwFatal Encryption
begin

text \<open>
  \<open>backend/middlewares/mdwuser\<close>: the user database and the middleware that lets a request
  pass only when its connection has authenticated. The SQL driver, the key derivation and
  the UUID parser are third-party code: they are the fields of \<open>external\<close>, functions on an
  arbitrary database state \<open>'db\<close>, and \<open>sql_laws\<close> states the documented behaviour of the
  driver that the lemmas rely on. The lemmas show that a stored password never changes, that
  a wrong password never passes, that a registered user can log in, and that nothing behind
  the middleware runs for a connection without a user.
\<close>

section \<open>The third-party interface\<close>

datatype stmt = PragmaLocking | CreateTable | SelectPassword | InsertUser | SelectStats

type_synonym stats = "u32 \<times> u32 \<times> u32 \<times> u32 \<times> u64"

record 'db external =
  pbkdf2_Key :: kdf
  uuid_Parse :: "gostring \<Rightarrow> go_error + bytes"
  sql_Open :: "gostring \<Rightarrow> 'db \<Rightarrow> go_error option \<times> 'db"
  sql_Exec :: "stmt \<Rightarrow> 'db \<Rightarrow> go_error option \<times> 'db"
  sql_Prepare :: "stmt \<Rightarrow> 'db \<Rightarrow> go_error option \<times> 'db"
  row_password :: "gostring \<Rightarrow> 'db \<Rightarrow> (go_error + gostring) \<times> 'db"
  exec_insert :: "gostring \<Rightarrow> gostring \<Rightarrow> 'db \<Rightarrow> go_error option \<times> 'db"
  row_stats :: "gostring \<Rightarrow> 'db \<Rightarrow> (go_error + stats) \<times> 'db"

text \<open>
  What the driver documents, with \<open>stored db u\<close> the password column of the row of user
  \<open>u\<close>: a query reads the row or fails, an insert adds the row of a new user or fails and
  changes nothing (the user name is the primary key), and everything else leaves the rows.
\<close>

definition sql_laws :: "'db external \<Rightarrow> ('db \<Rightarrow> gostring \<rightharpoonup> gostring) \<Rightarrow> bool" where
  "sql_laws ext stored \<longleftrightarrow>
     (\<forall>path db. stored (snd (sql_Open ext path db)) = stored db) \<and>
     (\<forall>q db. stored (snd (sql_Exec ext q db)) = stored db) \<and>
     (\<forall>q db. stored (snd (sql_Prepare ext q db)) = stored db) \<and>
     (\<forall>u db. stored (snd (row_password ext u db)) = stored db) \<and>
     (\<forall>u db h. fst (row_password ext u db) = Inr h \<longrightarrow> stored db u = Some h) \<and>
     (\<forall>u db. stored (snd (row_stats ext u db)) = stored db) \<and>
     (\<forall>u h db. fst (exec_insert ext u h db) \<noteq> None \<longrightarrow> stored (snd (exec_insert ext u h db)) = stored db) \<and>
     (\<forall>u h db. fst (exec_insert ext u h db) = None \<longrightarrow>
        stored db u = None \<and> stored (snd (exec_insert ext u h db)) = (stored db)(u \<mapsto> h))"

section \<open>The database (database.go)\<close>

text \<open>
  The methods run on the server state: the database, the clock and the random source. The
  first two calls of each method, Open and Prepare, return early on an error.
\<close>

definition on_db :: "('db \<Rightarrow> 'a \<times> 'db) \<Rightarrow> 'db server \<Rightarrow> 'a \<times> 'db server" where
  "on_db f s = (case f (Db s) of (a, db) \<Rightarrow> (a, s\<lparr>Db := db\<rparr>))"

definition open_and_prepare ::
  "'db external \<Rightarrow> gostring \<Rightarrow> stmt \<Rightarrow> 'db server \<Rightarrow> go_error option \<times> 'db server" where
  "open_and_prepare ext path q s =
     (case on_db (sql_Open ext path) s of
        (Some err, s) \<Rightarrow> (Some err, s)
      | (None, s) \<Rightarrow> on_db (sql_Prepare ext q) s)"

definition NewDatabase :: "'db external \<Rightarrow> gostring \<Rightarrow> 'db server \<Rightarrow> (go_error + gostring) \<times> 'db server" where
  "NewDatabase ext path s =
     (case on_db (sql_Open ext path) s of
        (Some err, s) \<Rightarrow> (Inl err, s)
      | (None, s) \<Rightarrow>
          (case on_db (sql_Exec ext PragmaLocking) s of
             (Some err, s) \<Rightarrow> (Inl err, s)
           | (None, s) \<Rightarrow>
               (case on_db (sql_Exec ext CreateTable) s of
                  (Some err, s) \<Rightarrow> (Inl err, s)
                | (None, s) \<Rightarrow> (Inr path, s))))"

text \<open>Any error of the scan counts as a missing user.\<close>

definition db_authenticate ::
  "'db external \<Rightarrow> gostring \<Rightarrow> gostring \<Rightarrow> bytes \<Rightarrow> 'db server \<Rightarrow> (go_error option \<times> 'db server) option" where
  "db_authenticate ext path username password s =
     (case open_and_prepare ext path SelectPassword s of
        (Some err, s) \<Rightarrow> Some (Some err, s)
      | (None, s) \<Rightarrow>
          (case on_db (row_password ext username) s of
             (Inl err, s) \<Rightarrow> Some (Some ErrUserNotFound, s)
           | (Inr dbPassword, s) \<Rightarrow> do {
               ok \<leftarrow> hasher_verify (pbkdf2_Key ext) password dbPassword;
               Some (if \<not> ok then Some ErrWrongPassword else None, s)
             }))"

definition db_register ::
  "'db external \<Rightarrow> gostring \<Rightarrow> gostring \<Rightarrow> bytes \<Rightarrow> 'db server \<Rightarrow> (go_error option \<times> 'db server) option" where
  "db_register ext path username password s =
     (case open_and_prepare ext path InsertUser s of
        (Some err, s) \<Rightarrow> Some (Some err, s)
      | (None, s) \<Rightarrow> do {
          (salt, w) \<leftarrow> RandomString 16 (World s);
          let hashed_password = hasher_encode (pbkdf2_Key ext) password salt;
          let s = s\<lparr>World := w\<rparr>;
          Some (on_db (exec_insert ext username hashed_password) s)
        })"

definition db_getUser ::
  "'db external \<Rightarrow> gostring \<Rightarrow> conn \<Rightarrow> gostring \<Rightarrow> 'db server \<Rightarrow> (go_error + user) \<times> 'db server" where
  "db_getUser ext path c username s =
     (case open_and_prepare ext path SelectStats s of
        (Some err, s) \<Rightarrow> (Inl err, s)
      | (None, s) \<Rightarrow>
          let user = NewUser (next_user s) username c (unix_now (World s));
              s = s\<lparr>next_user := next_user s + 1\<rparr>
          in (case on_db (row_stats ext username) s of
                (Inl err, s) \<Rightarrow> (Inl err, s)
              | (Inr (wins, ties, losses, matches, duration), s) \<Rightarrow>
                  (Inr (user\<lparr>NumOfWins := wins, NumOfTies := ties, NumOfLosses := losses,
                      NumOfMatches := matches, GameDuration := duration\<rparr>), s)))"

section \<open>The middleware (middleware.go, view.go)\<close>

record user_mdw =
  us_JoinRoom :: u16
  uc_YouJoinRoom :: u16
  database :: gostring
  serverUuid :: bytes

definition user_NewMiddleware ::
  "'db external \<Rightarrow> u16 \<Rightarrow> u16 \<Rightarrow> gostring \<Rightarrow> gostring \<Rightarrow> 'db server \<Rightarrow> (go_error + user_mdw) \<times> 'db server" where
  "user_NewMiddleware ext sj cj databasePath uuid s =
     (case uuid_Parse ext uuid of
        Inl err \<Rightarrow> (Inl err, s)
      | Inr uuidBytes \<Rightarrow>
          (case NewDatabase ext databasePath s of
             (Inl err, s) \<Rightarrow> (Inl err, s)
           | (Inr db, s) \<Rightarrow>
               (Inr \<lparr>us_JoinRoom = sj, uc_YouJoinRoom = cj, database = db, serverUuid = uuidBytes\<rparr>, s)))"

record InstructionJoinRoom =
  RoomID :: byte
  ijr_Username :: gostring
  ijr_Password :: bytes
  ijr_Role :: byte

definition InstructionJoinRoom_fields :: "field list" where
  "InstructionJoinRoom_fields =
     [fld KUint8 '''' '''', fld KString ''1'' '''', fld (KSlice KUint8) ''2'' '''', fld KUint8 '''' '''']"

definition InstructionJoinRoom_vals :: "InstructionJoinRoom \<Rightarrow> fval list" where
  "InstructionJoinRoom_vals i =
     [VUint8 (RoomID i), VString (ijr_Username i), VBytes (ijr_Password i), VUint8 (ijr_Role i)]"

fun InstructionJoinRoom_of :: "fval list \<Rightarrow> InstructionJoinRoom option" where
  "InstructionJoinRoom_of [VUint8 r, VString u, VBytes p, VUint8 role] =
     Some \<lparr>RoomID = r, ijr_Username = u, ijr_Password = p, ijr_Role = role\<rparr>"
| "InstructionJoinRoom_of _ = None"

interpretation join_room_rd: wire_reader
  InstructionJoinRoom_fields InstructionJoinRoom_vals InstructionJoinRoom_of
  by unfold_locales
    (auto simp: InstructionJoinRoom_fields_def InstructionJoinRoom_vals_def has_kind_cases list_all2_Cons1)

definition decode_JoinRoom :: "bytes \<Rightarrow> (go_error + InstructionJoinRoom) option" where
  "decode_JoinRoom = decode_struct InstructionJoinRoom_fields InstructionJoinRoom_of"

definition sendAuthenticationFailed :: "conn \<Rightarrow> u16 \<Rightarrow> world \<Rightarrow> go_error option \<times> world" where
  "sendAuthenticationFailed c instruction w =
     (let s = WriteBoolean False fresh_serializer in write_conn c instruction (raw s) w)"

definition authenticate ::
  "'db external \<Rightarrow> user_mdw \<Rightarrow> conn \<Rightarrow> bytes \<Rightarrow> 'db server \<Rightarrow> ((go_error + user) \<times> 'db server) option" where
  "authenticate ext m c data s = do {
     r \<leftarrow> decode_JoinRoom data;
     case r of
       Inl err \<Rightarrow> Some (Inl err, s)
     | Inr i_join_room \<Rightarrow> do {
         (err, s) \<leftarrow> db_authenticate ext (database m) (ijr_Username i_join_room) (ijr_Password i_join_room) s;
         (err, s) \<leftarrow>
           (if err = Some ErrUserNotFound
            then db_register ext (database m) (ijr_Username i_join_room) (ijr_Password i_join_room) s
            else Some (err, s));
         case err of
           Some err \<Rightarrow> Some (Inl err, s)
         | None \<Rightarrow> Some (db_getUser ext (database m) c (ijr_Username i_join_room) s)
       }
   }"

definition user_ProcessDistribute ::
  "'db external \<Rightarrow> user_mdw \<Rightarrow> 'db handler \<Rightarrow> 'db handler" where
  "user_ProcessDistribute ext m next ctx s = do {
     (err, s) \<leftarrow>
       (if Instruction ctx = us_JoinRoom m then do {
          (r, s) \<leftarrow> authenticate ext m (Conn ctx) (Data ctx) s;
          case r of
            Inl err \<Rightarrow>
              Some (Some err, snd (write_world (sendAuthenticationFailed (Conn ctx) (uc_YouJoinRoom m)) s))
          | Inr user \<Rightarrow>
              Some (None, set_payload (Conn ctx) (Payloads s (Conn ctx)\<lparr>PUser := Some user\<rparr>) s)
        } else Some (None, s));
     case err of
       Some err \<Rightarrow> Some (Some err, s)
     | None \<Rightarrow>
         (case PUser (Payloads s (Conn ctx)) of
            None \<Rightarrow>
              Some (Some (exec_error (NewExecution (Conn ctx) 0 (lit ''user has not passed the authentication''))), s)
          | Some user \<Rightarrow> next ctx s)
   }"

definition user_ProcessConnect :: "'db connecting \<Rightarrow> 'db connecting" where
  "user_ProcessConnect next ctx ps = (case ps of (p, s) \<Rightarrow> next ctx (p\<lparr>PUser := None\<rparr>, s))"

definition user_ProcessDisconnect :: "'db disconnecting \<Rightarrow> 'db disconnecting" where
  "user_ProcessDisconnect next ctx s = next ctx s"

definition user_NewPayload :: "user option" where
  "user_NewPayload = None"

section \<open>What the database methods do\<close>

text \<open>The database methods change the database, the user numbers and the random source only.\<close>

definition db_frame :: "'db server \<Rightarrow> 'db server \<Rightarrow> bool" where
  "db_frame s s' \<longleftrightarrow>
     Rooms s' = Rooms s \<and> Payloads s' = Payloads s \<and> connectionSet s' = connectionSet s \<and>
     (\<exists>k. World s' = World s\<lparr>rand_pos := k\<rparr>) \<and> next_user s \<le> next_user s'"

lemma db_frame_refl [intro, simp]: "db_frame s s"
  by (auto simp: db_frame_def intro!: exI [of _ "rand_pos (World s)"])

lemma db_frame_trans [trans]: "db_frame s s' \<Longrightarrow> db_frame s' s'' \<Longrightarrow> db_frame s s''"
  by (auto simp: db_frame_def)

lemma db_frame_update:
  "db_frame s (s\<lparr>Db := db\<rparr>)" "db_frame s (s\<lparr>World := World s\<lparr>rand_pos := k\<rparr>\<rparr>)"
  "db_frame s (s\<lparr>next_user := next_user s + 1\<rparr>)"
  by (auto simp: db_frame_def intro: exI [of _ "rand_pos (World s)"] exI [of _ k])

lemma on_db_spec:
  assumes "on_db f s = (a, s')"
  shows "db_frame s s'" "fst (f (Db s)) = a" "snd (f (Db s)) = Db s'" "World s' = World s"
    "next_user s' = next_user s"
  using assms by (auto simp: on_db_def db_frame_update split: prod.splits)

lemma sql_lawsD:
  assumes "sql_laws ext stored"
  shows "stored (snd (sql_Open ext path db)) = stored db"
    "stored (snd (sql_Exec ext q db)) = stored db"
    "stored (snd (sql_Prepare ext q db)) = stored db"
    "stored (snd (row_password ext u db)) = stored db"
    "fst (row_password ext u db) = Inr h \<Longrightarrow> stored db u = Some h"
    "stored (snd (row_stats ext u db)) = stored db"
    "fst (exec_insert ext u h db) \<noteq> None \<Longrightarrow> stored (snd (exec_insert ext u h db)) = stored db"
    "fst (exec_insert ext u h db) = None \<Longrightarrow> stored db u = None"
    "fst (exec_insert ext u h db) = None \<Longrightarrow> stored (snd (exec_insert ext u h db)) = (stored db)(u \<mapsto> h)"
  using assms by (simp_all add: sql_laws_def)

lemma open_and_prepare_spec:
  assumes "sql_laws ext stored" "open_and_prepare ext path q s = (err, s')"
  shows "stored (Db s') = stored (Db s)" "db_frame s s'" "World s' = World s" "next_user s' = next_user s"
proof -
  obtain e1 s1 where 1: "on_db (sql_Open ext path) s = (e1, s1)" by fastforce
  obtain e2 s2 where 2: "on_db (sql_Prepare ext q) s1 = (e2, s2)" by fastforce
  have "stored (Db s1) = stored (Db s)" "stored (Db s2) = stored (Db s1)"
    using sql_lawsD(1,3) [OF assms(1)] on_db_spec(3) [OF 1] on_db_spec(3) [OF 2] by metis+
  moreover have "s' = s1 \<or> s' = s2" using assms(2) 1 2 by (auto simp: open_and_prepare_def split: option.splits)
  ultimately show "stored (Db s') = stored (Db s)" "db_frame s s'" "World s' = World s" "next_user s' = next_user s"
    using on_db_spec(1,4,5) [OF 1] on_db_spec(1,4,5) [OF 2] db_frame_trans [of s s1 s2] by auto
qed

lemma db_authenticate_spec:
  assumes laws: "sql_laws ext stored"
    and run: "db_authenticate ext path u p s = Some (err, s')"
  shows "stored (Db s') = stored (Db s)" "db_frame s s'"
    "err = None \<Longrightarrow> \<exists>h. stored (Db s) u = Some h \<and> hasher_verify (pbkdf2_Key ext) p h = Some True"
proof -
  obtain e1 s1 where 1: "open_and_prepare ext path SelectPassword s = (e1, s1)" by fastforce
  obtain r s2 where 2: "on_db (row_password ext u) s1 = (r, s2)" by fastforce
  have st: "stored (Db s1) = stored (Db s)" "stored (Db s2) = stored (Db s)"
    using open_and_prepare_spec(1) [OF laws 1] sql_lawsD(4) [OF laws] on_db_spec(3) [OF 2] by metis+
  moreover have "s' = s1 \<or> s' = s2"
    using run 1 2 by (auto simp: db_authenticate_def bind_eq_Some_conv split: option.splits sum.splits)
  ultimately show "stored (Db s') = stored (Db s)" "db_frame s s'"
    using open_and_prepare_spec(2) [OF laws 1] on_db_spec(1) [OF 2] db_frame_trans [of s s1 s2] by auto
  assume "err = None"
  then obtain h where "r = Inr h" "hasher_verify (pbkdf2_Key ext) p h = Some True"
    using run 1 2
    by (auto simp: db_authenticate_def bind_eq_Some_conv split: option.splits sum.splits if_splits)
  then show "\<exists>h. stored (Db s) u = Some h \<and> hasher_verify (pbkdf2_Key ext) p h = Some True"
    using sql_lawsD(5) [OF laws, of u "Db s1" h] on_db_spec(2) [OF 2] st(1) by auto
qed

lemma db_register_spec:
  assumes laws: "sql_laws ext stored"
    and run: "db_register ext path u p s = Some (err, s')"
  shows "db_frame s s'" "err \<noteq> None \<Longrightarrow> stored (Db s') = stored (Db s)"
    "err = None \<Longrightarrow> stored (Db s) u = None \<and> (\<exists>salt. dollar \<notin> set salt \<and>
      stored (Db s') = (stored (Db s))(u \<mapsto> hasher_encode (pbkdf2_Key ext) p salt))"
proof -
  obtain e1 s1 where 1: "open_and_prepare ext path InsertUser s = (e1, s1)" by fastforce
  note o = open_and_prepare_spec [OF laws 1]
  have "db_frame s s' \<and> (err \<noteq> None \<longrightarrow> stored (Db s') = stored (Db s)) \<and>
    (err = None \<longrightarrow> stored (Db s) u = None \<and> (\<exists>salt. dollar \<notin> set salt \<and>
      stored (Db s') = (stored (Db s))(u \<mapsto> hasher_encode (pbkdf2_Key ext) p salt)))"
  proof (cases e1)
    case (Some e)
    then show ?thesis using run 1 o by (auto simp: db_register_def)
  next
    case None
    then obtain salt w where r: "RandomString 16 (World s1) = Some (salt, w)"
      and i: "on_db (exec_insert ext u (hasher_encode (pbkdf2_Key ext) p salt)) (s1\<lparr>World := w\<rparr>) = (err, s')"
      using run 1 by (auto simp: db_register_def bind_eq_Some_conv Let_def)
    have salt: "dollar \<notin> set salt" using RandomString_letters [OF r] dollar_letters by blast
    have "w = World s1\<lparr>rand_pos := rand_pos (World s1) + 16\<rparr>" using RandomString_letters [OF r] by simp
    then have "db_frame s1 (s1\<lparr>World := w\<rparr>)" using db_frame_update(2) by metis
    then have "db_frame s s'" using o(2) on_db_spec(1) [OF i] by (metis db_frame_trans)
    moreover have "err \<noteq> None \<longrightarrow> stored (Db s') = stored (Db s)"
      "err = None \<longrightarrow> stored (Db s) u = None"
      "err = None \<longrightarrow> stored (Db s') = (stored (Db s))(u \<mapsto> hasher_encode (pbkdf2_Key ext) p salt)"
      using o(1) on_db_spec(2,3) [OF i] sql_lawsD(7,8,9) [OF laws, of u "hasher_encode (pbkdf2_Key ext) p salt" "Db s1"]
      by auto
    ultimately show ?thesis using salt by blast
  qed
  then show "db_frame s s'" "err \<noteq> None \<Longrightarrow> stored (Db s') = stored (Db s)"
    "err = None \<Longrightarrow> stored (Db s) u = None \<and> (\<exists>salt. dollar \<notin> set salt \<and>
      stored (Db s') = (stored (Db s))(u \<mapsto> hasher_encode (pbkdf2_Key ext) p salt))"
    by blast+
qed

lemma db_getUser_spec:
  assumes laws: "sql_laws ext stored" and run: "db_getUser ext path c u s = (r, s')"
  shows "stored (Db s') = stored (Db s)" "db_frame s s'"
    "r = Inr user \<Longrightarrow> Username user = u \<and> user_conn user = c \<and> user_id user = next_user s \<and> next_user s' = next_user s + 1"
proof -
  obtain e1 s1 where 1: "open_and_prepare ext path SelectStats s = (e1, s1)" by fastforce
  note o = open_and_prepare_spec [OF laws 1]
  have "stored (Db s') = stored (Db s) \<and> db_frame s s' \<and> (r = Inr user \<longrightarrow>
      Username user = u \<and> user_conn user = c \<and> user_id user = next_user s \<and> next_user s' = next_user s + 1)"
  proof (cases e1)
    case (Some e)
    then show ?thesis using run 1 o by (auto simp: db_getUser_def)
  next
    case None
    let ?s2 = "s1\<lparr>next_user := next_user s1 + 1\<rparr>"
    obtain q s3 where 3: "on_db (row_stats ext u) ?s2 = (q, s3)" by fastforce
    have "db_frame s s3"
      using o(2) db_frame_update(3) [of s1] on_db_spec(1) [OF 3] by (metis db_frame_trans)
    moreover have "stored (Db s3) = stored (Db s)"
      using o(1) on_db_spec(3) [OF 3] sql_lawsD(6) [OF laws, of u "Db s1"] by simp
    moreover have "next_user s3 = next_user s + 1" using on_db_spec(5) [OF 3] o(4) by simp
    moreover have "s' = s3"
      using run 1 3 None by (auto simp: db_getUser_def Let_def split: sum.splits)
    moreover have "r = Inr user \<longrightarrow> Username user = u \<and> user_conn user = c \<and> user_id user = next_user s"
      using run 1 3 None o(4) by (auto simp: db_getUser_def Let_def NewUser_def split: sum.splits)
    ultimately show ?thesis by blast
  qed
  then show "stored (Db s') = stored (Db s)" "db_frame s s'" "r = Inr user \<Longrightarrow>
      Username user = u \<and> user_conn user = c \<and> user_id user = next_user s \<and> next_user s' = next_user s + 1"
    by blast+
qed

text \<open>
  The two ways a password is accepted: it matches the stored hash, or the user is new and is
  registered with it.
\<close>

definition logged_in ::
  "kdf \<Rightarrow> (gostring \<rightharpoonup> gostring) \<Rightarrow> gostring \<Rightarrow> bytes \<Rightarrow> (gostring \<rightharpoonup> gostring) \<Rightarrow> bool" where
  "logged_in kdf before u p after \<longleftrightarrow>
     (\<exists>h. before u = Some h \<and> hasher_verify kdf p h = Some True \<and> after = before) \<or>
     before u = None \<and> (\<exists>salt. dollar \<notin> set salt \<and> after = before(u \<mapsto> hasher_encode kdf p salt))"

lemma authenticate_spec:
  assumes laws: "sql_laws ext stored"
    and dec: "decode_JoinRoom data = Some (Inr i)"
    and run: "authenticate ext m c data s = Some (r, s')"
  shows "db_frame s s'"
    "stored (Db s') = stored (Db s) \<or>
     logged_in (pbkdf2_Key ext) (stored (Db s)) (ijr_Username i) (ijr_Password i) (stored (Db s'))"
    "r = Inr user \<Longrightarrow> Username user = ijr_Username i \<and> user_conn user = c \<and>
       next_user s \<le> user_id user \<and> user_id user < next_user s' \<and>
       logged_in (pbkdf2_Key ext) (stored (Db s)) (ijr_Username i) (ijr_Password i) (stored (Db s'))"
proof -
  let ?u = "ijr_Username i" and ?p = "ijr_Password i" and ?k = "pbkdf2_Key ext"
  obtain e1 s1 where 1: "db_authenticate ext (database m) ?u ?p s = Some (e1, s1)"
    using run dec by (auto simp: authenticate_def bind_eq_Some_conv)
  note a = db_authenticate_spec [OF laws 1]
  obtain e2 s2 where 2: "(if e1 = Some ErrUserNotFound then db_register ext (database m) ?u ?p s1 else Some (e1, s1)) = Some (e2, s2)"
    using run dec 1 by (auto simp: authenticate_def bind_eq_Some_conv split: if_splits)
  have fr2: "db_frame s s2"
    using a(2) 2 db_register_spec(1) [OF laws] by (auto split: if_splits intro: db_frame_trans)
  have ok2: "stored (Db s2) = stored (Db s) \<or> logged_in ?k (stored (Db s)) ?u ?p (stored (Db s2))"
    "e2 = None \<Longrightarrow> logged_in ?k (stored (Db s)) ?u ?p (stored (Db s2))"
    using a(1,3) 2 db_register_spec(2,3) [OF laws, of "database m" ?u ?p s1 e2 s2]
    by (cases e2; auto simp: logged_in_def split: if_splits)+
  have s': "case e2 of Some e \<Rightarrow> r = Inl e \<and> s' = s2 | None \<Rightarrow> db_getUser ext (database m) c ?u s2 = (r, s')"
    using run dec 1 2 by (auto simp: authenticate_def split: option.splits if_splits)
  show "db_frame s s'"
    using s' fr2 db_getUser_spec(2) [OF laws] by (auto split: option.splits intro: db_frame_trans)
  show "stored (Db s') = stored (Db s) \<or> logged_in ?k (stored (Db s)) ?u ?p (stored (Db s'))"
    using s' ok2(1) db_getUser_spec(1) [OF laws] by (auto split: option.splits)
  show "Username user = ?u \<and> user_conn user = c \<and> next_user s \<le> user_id user \<and>
      user_id user < next_user s' \<and> logged_in ?k (stored (Db s)) ?u ?p (stored (Db s'))"
    if "r = Inr user"
  proof -
    have "next_user s \<le> next_user s2" using fr2 by (simp add: db_frame_def)
    moreover have "e2 = None" "db_getUser ext (database m) c ?u s2 = (Inr user, s')"
      using s' that by (auto split: option.splits)
    ultimately show ?thesis using ok2(2) db_getUser_spec(1,3) [OF laws, of "database m" c ?u s2 "Inr user" s'] by simp
  qed
qed

text \<open>A payload that does not parse is refused before the database is touched.\<close>

lemma authenticate_malformed:
  "decode_JoinRoom data = Some (Inl err) \<Longrightarrow> authenticate ext m c data s = Some (Inl err, s)"
  by (simp add: authenticate_def)

lemma decode_JoinRoom_cases:
  obtains err where "decode_JoinRoom data = Some (Inl err)" | i where "decode_JoinRoom data = Some (Inr i)"
  using join_room_rd.decode_returns [of data] by (metis decode_JoinRoom_def sum.exhaust)

section \<open>The middleware never panics on a sound database\<close>

definition hashes_ok :: "(gostring \<rightharpoonup> gostring) \<Rightarrow> bool" where
  "hashes_ok passwords \<longleftrightarrow> (\<forall>u h. passwords u = Some h \<longrightarrow> wf_hash h)"

lemma rand_ok_frame: "db_frame s s' \<Longrightarrow> rand_ok (World s') = rand_ok (World s)"
  by (auto simp: db_frame_def rand_ok_def)

lemma logged_in_ok: "logged_in kdf before u p after \<Longrightarrow> hashes_ok before \<Longrightarrow> hashes_ok after"
  by (auto simp: logged_in_def hashes_ok_def encode_wf split: if_splits)

lemma logged_in_keeps: "logged_in kdf before u p after \<Longrightarrow> before \<subseteq>\<^sub>m after"
  by (auto simp: logged_in_def map_le_def)

lemma db_authenticate_returns:
  assumes "sql_laws ext stored" "hashes_ok (stored (Db s))"
  shows "\<exists>err s'. db_authenticate ext path u p s = Some (err, s')"
proof -
  obtain e1 s1 where 1: "open_and_prepare ext path SelectPassword s = (e1, s1)" by fastforce
  obtain r s2 where 2: "on_db (row_password ext u) s1 = (r, s2)" by fastforce
  have "hasher_verify (pbkdf2_Key ext) p h \<noteq> None" if "r = Inr h" for h
    using that sql_lawsD(5) [OF assms(1), of u "Db s1" h] on_db_spec(2) [OF 2]
      open_and_prepare_spec(1) [OF assms(1) 1] assms(2) by (auto simp: verify_returns hashes_ok_def)
  then show ?thesis using 1 2 by (auto simp: db_authenticate_def split: option.splits sum.splits)
qed

lemma db_register_returns:
  assumes "sql_laws ext stored" "rand_ok (World s)"
  shows "\<exists>err s'. db_register ext path u p s = Some (err, s')"
proof -
  obtain e1 s1 where 1: "open_and_prepare ext path InsertUser s = (e1, s1)" by fastforce
  have "rand_ok (World s1)" using open_and_prepare_spec(3) [OF assms(1) 1] assms(2) by simp
  from RandomString_returns [OF this, of 16] show ?thesis
    using 1 by (auto simp: db_register_def Let_def split: option.splits)
qed

lemma authenticate_returns:
  assumes laws: "sql_laws ext stored" and ok: "hashes_ok (stored (Db s))" "rand_ok (World s)"
  shows "\<exists>r s'. authenticate ext m c data s = Some (r, s') \<and> db_frame s s' \<and> hashes_ok (stored (Db s'))"
proof (cases data rule: decode_JoinRoom_cases)
  case (1 err)
  then show ?thesis using ok by (simp add: authenticate_malformed)
next
  case (2 i)
  obtain e1 s1 where 1: "db_authenticate ext (database m) (ijr_Username i) (ijr_Password i) s = Some (e1, s1)"
    using db_authenticate_returns [OF laws ok(1)] by blast
  have "rand_ok (World s1)" using db_authenticate_spec(2) [OF laws 1] ok(2) rand_ok_frame by blast
  then obtain e2 s2 where
    "db_register ext (database m) (ijr_Username i) (ijr_Password i) s1 = Some (e2, s2)"
    using db_register_returns [OF laws] by blast
  then have "\<exists>r s'. authenticate ext m c data s = Some (r, s')"
    using 1 2 by (auto simp: authenticate_def split: option.splits)
  then obtain r s' where run: "authenticate ext m c data s = Some (r, s')" by blast
  then show ?thesis
    using authenticate_spec(1,2) [OF laws 2 run] ok(1) by (metis logged_in_ok)
qed

section \<open>An instance of the driver\<close>

text \<open>A database whose state is the password column itself and which never fails.\<close>

definition map_external :: "(gostring \<rightharpoonup> gostring) external" where
  "map_external =
     \<lparr>pbkdf2_Key = \<lambda>p s n k. p @ s, uuid_Parse = Inr, sql_Open = \<lambda>path db. (None, db),
      sql_Exec = \<lambda>q db. (None, db), sql_Prepare = \<lambda>q db. (None, db),
      row_password = \<lambda>u db. (case db u of None \<Rightarrow> Inl ErrIO | Some h \<Rightarrow> Inr h, db),
      exec_insert = \<lambda>u h db. (if db u = None then (None, db(u \<mapsto> h)) else (Some ErrIO, db)),
      row_stats = \<lambda>u db. (if db u = None then Inl ErrIO else Inr (0, 0, 0, 0, 0), db)\<rparr>"

lemma map_external_laws: "sql_laws map_external id"
  by (auto simp: sql_laws_def map_external_def split: option.splits)

definition quiet_world :: world where
  "quiet_world =
     \<lparr>net_out = [], net_closed = [], net_fail = \<lambda>_. False, net_writes = 0, unix_now = 0,
      rand_ints = \<lambda>k. Some (int k), rand_pos = 0\<rparr>"

definition empty_server :: "'db \<Rightarrow> 'db server" where
  "empty_server db =
     \<lparr>Rooms = [], Db = db, next_user = 0, Payloads = \<lambda>_. \<lparr>PUser = None, PRoom = None, Executions = []\<rparr>,
      World = quiet_world, connectionSet = []\<rparr>"

definition join_bytes :: "gostring \<Rightarrow> bytes \<Rightarrow> bytes" where
  "join_bytes u p = [0] @ enc8 u @ enc16 p @ [0x50]"

lemma join_bytes_foo: "decode_JoinRoom (join_bytes (lit ''foo'') (lit ''bar'')) =
    Some (Inr \<lparr>RoomID = 0, ijr_Username = lit ''foo'', ijr_Password = lit ''bar'', ijr_Role = 0x50\<rparr>)"
  by code_simp

text \<open>A driver that does not fail on the rows that exist, nor on the row of a new user.\<close>

definition sql_up :: "'db external \<Rightarrow> ('db \<Rightarrow> gostring \<rightharpoonup> gostring) \<Rightarrow> bool" where
  "sql_up ext stored \<longleftrightarrow>
     (\<forall>path db. fst (sql_Open ext path db) = None) \<and> (\<forall>q db. fst (sql_Prepare ext q db) = None) \<and>
     (\<forall>u db h. stored db u = Some h \<longrightarrow> fst (row_password ext u db) = Inr h) \<and>
     (\<forall>u db. stored db u \<noteq> None \<longrightarrow> (\<exists>st. fst (row_stats ext u db) = Inr st)) \<and>
     (\<forall>u h db. stored db u = None \<longrightarrow> fst (exec_insert ext u h db) = None)"

lemma map_external_up: "sql_up map_external id"
  by (auto simp: sql_up_def map_external_def)

lemma open_and_prepare_up: "sql_up ext stored \<Longrightarrow> fst (open_and_prepare ext path q s) = None"
  by (auto simp: open_and_prepare_def sql_up_def on_db_def split: prod.splits option.splits) (metis fst_conv not_None_eq)+

lemma db_authenticate_up:
  assumes "sql_laws ext stored" "sql_up ext stored"
    and "stored (Db s) u = Some (hasher_encode (pbkdf2_Key ext) p salt)" "dollar \<notin> set salt"
  shows "\<exists>s'. db_authenticate ext path u p s = Some (None, s')"
proof -
  obtain s1 where 1: "open_and_prepare ext path SelectPassword s = (None, s1)"
    using open_and_prepare_up [OF assms(2)] by (metis prod.collapse)
  obtain r s2 where 2: "on_db (row_password ext u) s1 = (r, s2)" by fastforce
  have "r = Inr (hasher_encode (pbkdf2_Key ext) p salt)"
    using on_db_spec(2) [OF 2] open_and_prepare_spec(1) [OF assms(1) 1] assms(2,3) by (simp add: sql_up_def)
  then show ?thesis using 1 2 assms(4) by (simp add: db_authenticate_def verify_encode)
qed

text \<open>A name without a row: the password check does not find it, and registration adds it.\<close>

lemma db_authenticate_new:
  assumes "sql_laws ext stored" "sql_up ext stored" "stored (Db s) u = None"
  shows "\<exists>s'. db_authenticate ext path u p s = Some (Some ErrUserNotFound, s')"
proof -
  obtain s1 where 1: "open_and_prepare ext path SelectPassword s = (None, s1)"
    using open_and_prepare_up [OF assms(2)] by (metis prod.collapse)
  obtain r s2 where 2: "on_db (row_password ext u) s1 = (r, s2)" by fastforce
  have "stored (Db s1) u = None" using open_and_prepare_spec(1) [OF assms(1) 1] assms(3) by simp
  then have "\<exists>e. r = Inl e"
    using on_db_spec(2) [OF 2] sql_lawsD(5) [OF assms(1), of u "Db s1"] by (cases r) auto
  then show ?thesis using 1 2 by (auto simp: db_authenticate_def)
qed

lemma db_register_up:
  assumes "sql_laws ext stored" "sql_up ext stored" "stored (Db s) u = None" "rand_ok (World s)"
  shows "\<exists>s'. db_register ext path u p s = Some (None, s')"
proof -
  obtain s1 where 1: "open_and_prepare ext path InsertUser s = (None, s1)"
    using open_and_prepare_up [OF assms(2)] by (metis prod.collapse)
  note o = open_and_prepare_spec [OF assms(1) 1]
  have "rand_ok (World s1)" using o(3) assms(4) by simp
  then obtain salt w where r: "RandomString 16 (World s1) = Some (salt, w)"
    using RandomString_returns by blast
  let ?f = "exec_insert ext u (hasher_encode (pbkdf2_Key ext) p salt)"
  have "fst (?f (Db s1)) = None" using assms(2,3) o(1) by (simp add: sql_up_def)
  then have "fst (on_db ?f (s1\<lparr>World := w\<rparr>)) = None" by (simp add: on_db_def split_beta)
  then obtain s' where "on_db ?f (s1\<lparr>World := w\<rparr>) = (None, s')" by (metis prod.collapse)
  then show ?thesis using 1 r by (simp add: db_register_def Let_def)
qed

lemma db_getUser_up:
  assumes "sql_laws ext stored" "sql_up ext stored" "stored (Db s) u \<noteq> None"
  shows "\<exists>user s'. db_getUser ext path c u s = (Inr user, s')"
proof -
  obtain s1 where 1: "open_and_prepare ext path SelectStats s = (None, s1)"
    using open_and_prepare_up [OF assms(2)] by (metis prod.collapse)
  let ?s2 = "s1\<lparr>next_user := next_user s1 + 1\<rparr>"
  obtain r s3 where 3: "on_db (row_stats ext u) ?s2 = (r, s3)" by fastforce
  have "fst (row_stats ext u (Db s1)) = r" "stored (Db s1) u \<noteq> None"
    using on_db_spec(2) [OF 3] open_and_prepare_spec(1) [OF assms(1) 1] assms(3) by simp_all
  then have "\<exists>st. r = Inr st" using assms(2) unfolding sql_up_def by metis
  then show ?thesis using 1 3 by (auto simp: db_getUser_def Let_def)
qed

text \<open>The password that a stored hash was made from logs its user in.\<close>

lemma stored_user_logs_in:
  assumes "sql_laws ext stored" "sql_up ext stored" "decode_JoinRoom data = Some (Inr i)"
    and "stored (Db s) (ijr_Username i) = Some (hasher_encode (pbkdf2_Key ext) (ijr_Password i) salt)"
    and "dollar \<notin> set salt"
  shows "\<exists>user s'. authenticate ext m c data s = Some (Inr user, s') \<and>
    Username user = ijr_Username i \<and> user_conn user = c \<and> stored (Db s') = stored (Db s)"
proof -
  obtain s1 where 1: "db_authenticate ext (database m) (ijr_Username i) (ijr_Password i) s = Some (None, s1)"
    using db_authenticate_up [OF assms(1,2,4,5)] by blast
  have st: "stored (Db s1) = stored (Db s)" by (rule db_authenticate_spec(1) [OF assms(1) 1])
  then obtain user s' where 2: "db_getUser ext (database m) c (ijr_Username i) s1 = (Inr user, s')"
    using db_getUser_up [OF assms(1,2)] assms(4) by (metis option.distinct(1))
  have "authenticate ext m c data s = Some (Inr user, s')"
    using 1 2 assms(3) by (simp add: authenticate_def)
  then show ?thesis using db_getUser_spec(1,3) [OF assms(1) 2] st by auto
qed

section \<open>Properties\<close>

text \<open>
  Claim C11. Authentication is sound: when it returns a user, the user carries the name and
  the connection of the request, and either the password verified against the stored hash
  and the passwords are as before, or the name was new and is now stored with a hash of
  this password. Rooms and payloads are untouched.
\<close>

theorem authentication_is_sound:
  assumes "sql_laws ext stored" "decode_JoinRoom data = Some (Inr i)"
    and "authenticate ext m c data s = Some (Inr user, s')"
  shows "Username user = ijr_Username i \<and> user_conn user = c \<and> Rooms s' = Rooms s \<and> Payloads s' = Payloads s \<and>
    ((\<exists>h. stored (Db s) (ijr_Username i) = Some h \<and>
        hasher_verify (pbkdf2_Key ext) (ijr_Password i) h = Some True \<and> stored (Db s') = stored (Db s)) \<or>
     stored (Db s) (ijr_Username i) = None \<and>
        (\<exists>salt. dollar \<notin> set salt \<and> stored (Db s') = (stored (Db s))
          (ijr_Username i \<mapsto> hasher_encode (pbkdf2_Key ext) (ijr_Password i) salt)))"
  using authenticate_spec(1) [OF assms] authenticate_spec(3) [OF assms refl]
  by (auto simp: db_frame_def logged_in_def)

theorem authentication_is_sound_witness:
  "\<exists>user s' salt. authenticate map_external \<lparr>us_JoinRoom = 7, uc_YouJoinRoom = 2, database = [], serverUuid = []\<rparr> 3
      (join_bytes (lit ''foo'') (lit ''bar'')) (empty_server Map.empty) = Some (Inr user, s') \<and>
    Username user = lit ''foo'' \<and> Db s' = [lit ''foo'' \<mapsto> hasher_encode (pbkdf2_Key map_external) (lit ''bar'') salt]"
proof -
  let ?m = "\<lparr>us_JoinRoom = 7, uc_YouJoinRoom = 2, database = [], serverUuid = []\<rparr>"
  let ?i = "\<lparr>RoomID = 0, ijr_Username = lit ''foo'', ijr_Password = lit ''bar'', ijr_Role = 0x50\<rparr>"
  have "rand_ok (World (empty_server (Map.empty :: gostring \<rightharpoonup> gostring)))"
    by (simp add: rand_ok_def empty_server_def quiet_world_def)
  from RandomString_returns [OF this, of 16] obtain salt w where
    "RandomString 16 quiet_world = Some (salt, w)"
    by (auto simp: empty_server_def)
  then obtain user s' where run: "authenticate map_external ?m 3 (join_bytes (lit ''foo'') (lit ''bar''))
      (empty_server Map.empty) = Some (Inr user, s')"
    by (simp add: authenticate_def join_bytes_foo db_authenticate_def db_register_def db_getUser_def
        open_and_prepare_def on_db_def map_external_def empty_server_def Let_def)
  show ?thesis
    using run authentication_is_sound [OF map_external_laws join_bytes_foo run] by (auto simp: empty_server_def)
qed

text \<open>
  Claim C13. A wrong password never passes: for a user who is stored with the hash of
  another password (one that derives another key), authentication returns an error and
  leaves every stored password as it was, also when the driver fails at any step.
\<close>

theorem wrong_password_never_passes:
  assumes "sql_laws ext stored" "decode_JoinRoom data = Some (Inr i)"
    and "stored (Db s) (ijr_Username i) = Some (hasher_encode (pbkdf2_Key ext) p salt)" "dollar \<notin> set salt"
    and "pbkdf2_Key ext (ijr_Password i) salt 720000 32 \<noteq> pbkdf2_Key ext p salt 720000 32"
    and "authenticate ext m c data s = Some (r, s')"
  shows "(\<exists>err. r = Inl err) \<and> stored (Db s') = stored (Db s)"
proof -
  have "\<not> logged_in (pbkdf2_Key ext) (stored (Db s)) (ijr_Username i) (ijr_Password i) after" for after
    using assms(3,4,5) by (auto simp: logged_in_def verify_encode)
  then show ?thesis
    using authenticate_spec(2,3) [OF assms(1,2,6)] by (cases r) auto
qed

theorem wrong_password_never_passes_witness:
  "\<exists>r s' err. authenticate map_external \<lparr>us_JoinRoom = 7, uc_YouJoinRoom = 2, database = [], serverUuid = []\<rparr> 3
      (join_bytes (lit ''foo'') (lit ''bar''))
      (empty_server [lit ''foo'' \<mapsto> hasher_encode (pbkdf2_Key map_external) (lit ''baz'') [66]]) = Some (r, s') \<and> r = Inl err"
proof -
  let ?s = "empty_server [lit ''foo'' \<mapsto> hasher_encode (pbkdf2_Key map_external) (lit ''baz'') [66]]"
  have "hashes_ok (Db ?s)" "rand_ok (World ?s)"
    by (simp_all add: empty_server_def hashes_ok_def encode_wf rand_ok_def quiet_world_def)
  then obtain r s' where run: "authenticate map_external \<lparr>us_JoinRoom = 7, uc_YouJoinRoom = 2, database = [], serverUuid = []\<rparr> 3
      (join_bytes (lit ''foo'') (lit ''bar'')) ?s = Some (r, s')"
    using authenticate_returns [OF map_external_laws, of ?s] by fastforce
  have neq: "pbkdf2_Key map_external (lit ''bar'') [66] 720000 32 \<noteq> pbkdf2_Key map_external (lit ''baz'') [66] 720000 32"
    by (simp add: map_external_def lit_def)
  show ?thesis
    using run wrong_password_never_passes [OF map_external_laws join_bytes_foo _ _ _ run, of "lit ''baz''" "[66]"] neq
    by (auto simp: empty_server_def dollar_def)
qed

text \<open>
  Claim C14. A registered user can log in again. When the driver does not fail, the first join
  request of a name that is not in the database fails the password check with
  ErrUserNotFound, register adds exactly the row of that name, and the request returns the
  user. From any later state that still has the stored passwords (no run of the server
  changes one), the same request from any connection authenticates again, and changes no
  stored password.
\<close>

theorem registered_user_logs_in:
  assumes "sql_laws ext stored" "sql_up ext stored" "decode_JoinRoom data = Some (Inr i)"
    and "stored (Db s) (ijr_Username i) = None" "rand_ok (World s)"
  shows "\<exists>s1 s2 user s3.
    db_authenticate ext (database m) (ijr_Username i) (ijr_Password i) s = Some (Some ErrUserNotFound, s1) \<and>
    db_register ext (database m) (ijr_Username i) (ijr_Password i) s1 = Some (None, s2) \<and>
    dom (stored (Db s2)) = insert (ijr_Username i) (dom (stored (Db s))) \<and> stored (Db s) \<subseteq>\<^sub>m stored (Db s2) \<and>
    authenticate ext m c data s = Some (Inr user, s3) \<and> Username user = ijr_Username i \<and>
    stored (Db s3) = stored (Db s2) \<and>
    (\<forall>c' t. stored (Db s2) \<subseteq>\<^sub>m stored (Db t) \<longrightarrow>
      (\<exists>user' t'. authenticate ext m c' data t = Some (Inr user', t') \<and>
        Username user' = ijr_Username i \<and> user_conn user' = c' \<and> stored (Db t') = stored (Db t)))"
proof -
  let ?u = "ijr_Username i" and ?p = "ijr_Password i" and ?d = "database m"
  obtain s1 where 1: "db_authenticate ext ?d ?u ?p s = Some (Some ErrUserNotFound, s1)"
    using db_authenticate_new [OF assms(1,2,4)] by blast
  have st1: "stored (Db s1) = stored (Db s)" by (rule db_authenticate_spec(1) [OF assms(1) 1])
  have "rand_ok (World s1)" using db_authenticate_spec(2) [OF assms(1) 1] assms(5) rand_ok_frame by blast
  then obtain s2 where 2: "db_register ext ?d ?u ?p s1 = Some (None, s2)"
    using db_register_up [OF assms(1,2)] st1 assms(4) by metis
  obtain salt where salt: "dollar \<notin> set salt"
    "stored (Db s2) = (stored (Db s))(?u \<mapsto> hasher_encode (pbkdf2_Key ext) ?p salt)"
    using db_register_spec(3) [OF assms(1) 2] st1 by auto
  obtain user s3 where 3: "db_getUser ext ?d c ?u s2 = (Inr user, s3)"
    using db_getUser_up [OF assms(1,2)] salt(2) by (metis fun_upd_same option.distinct(1))
  have a: "authenticate ext m c data s = Some (Inr user, s3)"
    using 1 2 3 assms(3) by (simp add: authenticate_def)
  have again: "\<exists>user' t'. authenticate ext m c' data t = Some (Inr user', t') \<and>
      Username user' = ?u \<and> user_conn user' = c' \<and> stored (Db t') = stored (Db t)"
    if "stored (Db s2) \<subseteq>\<^sub>m stored (Db t)" for c' t
  proof -
    have "stored (Db t) ?u = Some (hasher_encode (pbkdf2_Key ext) ?p salt)"
      using that salt(2) by (auto simp: map_le_def dest: bspec [of _ _ ?u])
    from stored_user_logs_in [OF assms(1-3) this salt(1)] show ?thesis .
  qed
  have "dom (stored (Db s2)) = insert ?u (dom (stored (Db s)))" "stored (Db s) \<subseteq>\<^sub>m stored (Db s2)"
    using salt(2) assms(4) by (auto simp: map_le_def)
  moreover have "Username user = ?u" "stored (Db s3) = stored (Db s2)"
    using db_getUser_spec(1,3) [OF assms(1) 3] by auto
  ultimately show ?thesis using 1 2 a again by blast
qed

theorem registered_user_logs_in_witness:
  "\<exists>user s1 user' s2. authenticate map_external \<lparr>us_JoinRoom = 7, uc_YouJoinRoom = 2, database = [], serverUuid = []\<rparr> 3
      (join_bytes (lit ''foo'') (lit ''bar'')) (empty_server Map.empty) = Some (Inr user, s1) \<and>
    authenticate map_external \<lparr>us_JoinRoom = 7, uc_YouJoinRoom = 2, database = [], serverUuid = []\<rparr> 4
      (join_bytes (lit ''foo'') (lit ''bar'')) s1 = Some (Inr user', s2) \<and>
    Username user' = lit ''foo'' \<and> dom (Db s2) = {lit ''foo''}"
proof -
  let ?m = "\<lparr>us_JoinRoom = 7, uc_YouJoinRoom = 2, database = [], serverUuid = []\<rparr>"
    and ?data = "join_bytes (lit ''foo'') (lit ''bar'')"
  have s: "id (Db (empty_server Map.empty)) (ijr_Username
      \<lparr>RoomID = 0, ijr_Username = lit ''foo'', ijr_Password = lit ''bar'', ijr_Role = 0x50\<rparr>) = (None :: gostring option)"
    "rand_ok (World (empty_server Map.empty))"
    by (simp_all add: empty_server_def rand_ok_def quiet_world_def)
  obtain sr s1 :: "(gostring \<rightharpoonup> gostring) server" and user where 1: "dom (Db sr) = {lit ''foo''}"
      "authenticate map_external ?m 3 ?data (empty_server Map.empty) = Some (Inr user, s1)" "Db s1 = Db sr"
    and later: "\<forall>c' t. Db sr \<subseteq>\<^sub>m Db t \<longrightarrow> (\<exists>user' t'. authenticate map_external ?m c' ?data t = Some (Inr user', t') \<and>
        Username user' = lit ''foo'' \<and> user_conn user' = c' \<and> Db t' = Db t)"
    using registered_user_logs_in [OF map_external_laws map_external_up join_bytes_foo s, of ?m 3]
    by (simp add: empty_server_def) blast
  have "Db sr \<subseteq>\<^sub>m Db s1" using 1(3) by simp
  then obtain user' s2 where "authenticate map_external ?m 4 ?data s1 = Some (Inr user', s2)"
    "Username user' = lit ''foo''" "Db s2 = Db s1"
    using later by blast
  moreover from this have "dom (Db s2) = {lit ''foo''}" using 1(1,3) by simp
  ultimately show ?thesis using 1(2) by blast
qed

text \<open>
  Claim C12. Nothing behind the user middleware runs for a connection that has not
  authenticated: on any request but a join request, and on a join request whose
  authentication fails, the result is an error that does not depend on the handlers behind
  it, and rooms and payloads stay as they are.
\<close>

theorem no_user_no_service:
  assumes "sql_laws ext stored"
    and "if Instruction ctx = us_JoinRoom m
         then \<exists>e s'. authenticate ext m (Conn ctx) (Data ctx) s = Some (Inl e, s')
         else PUser (Payloads s (Conn ctx)) = None"
  shows "\<exists>e s'. (\<forall>handler. user_ProcessDistribute ext m handler ctx s = Some (Some e, s')) \<and>
    Rooms s' = Rooms s \<and> Payloads s' = Payloads s \<and>
    (Instruction ctx \<noteq> us_JoinRoom m \<longrightarrow>
       s' = s \<and> e = Execution (Conn ctx) 0 (lit ''user has not passed the authentication''))"
proof (cases "Instruction ctx = us_JoinRoom m")
  case True
  then obtain e s1 where a: "authenticate ext m (Conn ctx) (Data ctx) s = Some (Inl e, s1)"
    using assms(2) by auto
  have "db_frame s s1"
    by (cases "Data ctx" rule: decode_JoinRoom_cases)
      (use a authenticate_malformed [of "Data ctx" _ ext m "Conn ctx" s] authenticate_spec(1) [OF assms(1) _ a] in auto)
  then show ?thesis using a True by (simp add: user_ProcessDistribute_def db_frame_def)
next
  case False
  then show ?thesis using assms(2)
    by (simp add: user_ProcessDistribute_def NewExecution_def)
qed

theorem no_user_no_service_witness:
  "\<exists>e s'. (\<forall>handler. user_ProcessDistribute map_external
      \<lparr>us_JoinRoom = 7, uc_YouJoinRoom = 2, database = [], serverUuid = []\<rparr> handler
      \<lparr>Instruction = 5, Data = [0, 112], Conn = 3\<rparr> (empty_server Map.empty) = Some (Some e, s')) \<and> Rooms s' = []"
  using no_user_no_service [OF map_external_laws, of "\<lparr>Instruction = 5, Data = [0, 112], Conn = 3\<rparr>"
      "\<lparr>us_JoinRoom = 7, uc_YouJoinRoom = 2, database = [], serverUuid = []\<rparr>" "empty_server Map.empty"]
  by (auto simp: empty_server_def)

end
