(* ===== verification/MdwRoom.thy ===== *)
theory MdwRoom
  imports MdwUser
begin

text \<open>
  \<open>backend/middlewares/mdwroom\<close>: the rooms of the server and the middleware that lets a user
  into a room and out of it. A room is the game room of the game package with a name, a
  limit and the list of its users, players included. The lemmas show the invariant of a
  room, what a client that joins is told, and how leaving behaves: a player stays in the
  list of users, and a join that fails after the seat was taken keeps the seat.
\<close>

section \<open>Rooms (room.go)\<close>

definition mroom_NewRoom :: "gostring \<Rightarrow> int \<Rightarrow> mroom" where
  "mroom_NewRoom name maxUser =
     (let maxUser = (if maxUser > MaxUsers_const then MaxUsers_const else maxUser);
          maxUser = (if maxUser < 2 then 2 else maxUser)
      in game_room.extend game_NewRoom (mroom.fields name maxUser []))"

definition FindUser :: "gostring \<Rightarrow> mroom \<Rightarrow> user option" where
  "FindUser username room = find (\<lambda>user. Username user = username) (Users room)"

definition joinAsPlayer :: "user \<Rightarrow> mroom \<Rightarrow> go_error option \<times> mroom" where
  "joinAsPlayer user room =
     (case Room_Join (Some user) room of
        (Some err, room) \<Rightarrow> (Some err, room)
      | (None, room) \<Rightarrow> (None, room\<lparr>Users := Users room @ [user]\<rparr>))"

definition joinAsOnlooker :: "user \<Rightarrow> mroom \<Rightarrow> go_error option \<times> mroom" where
  "joinAsOnlooker user room =
     (if MaxUsers room - 2 \<le> int (length (Users room)) - PlayerCount room
      then (Some (ErrText ''the room is full of onlookers''), room)
      else (None, room\<lparr>Users := Users room @ [user]\<rparr>))"

text \<open>Only \<open>ErrNotPlayer\<close> falls out of the switch; a player who left returns before the loop.\<close>

definition mroom_leave :: "user \<Rightarrow> mroom \<Rightarrow> go_error option \<times> mroom" where
  "mroom_leave user room =
     (case Room_Leave (Some user) room of (err, room) \<Rightarrow>
        if err \<noteq> Some ErrNotPlayer then (err, room)
        else (None, room\<lparr>Users := remove1 user (Users room)\<rparr>))"

section \<open>The middleware (middleware.go)\<close>

record room_mdw =
  rs_JoinRoom :: u16
  rs_LeaveRoom :: u16
  rc_YouJoinRoom :: u16
  rc_OtherJoinRoom :: u16
  rc_UserLeaveRoom :: u16
  rc_GameOver :: u16

record ConfigRoom =
  cr_Name :: gostring
  cr_MaxUsers :: int

definition MaxRooms :: nat where "MaxRooms = 200"

definition room_NewMiddleware ::
  "u16 \<Rightarrow> u16 \<Rightarrow> u16 \<Rightarrow> u16 \<Rightarrow> u16 \<Rightarrow> u16 \<Rightarrow> ConfigRoom list \<Rightarrow> room_mdw \<times> mroom list" where
  "room_NewMiddleware sj sl cy co cu cg rooms =
     (let maxRooms = (if length rooms < MaxRooms then length rooms else MaxRooms) in
      (\<lparr>rs_JoinRoom = sj, rs_LeaveRoom = sl, rc_YouJoinRoom = cy, rc_OtherJoinRoom = co,
        rc_UserLeaveRoom = cu, rc_GameOver = cg\<rparr>,
       map (\<lambda>i. mroom_NewRoom (cr_Name (rooms ! i)) (cr_MaxUsers (rooms ! i))) [0..<maxRooms]))"

section \<open>Messages (view.go)\<close>

text \<open>A message that Marshal encodes and Write sends; an error of either is returned.\<close>

definition send_struct ::
  "field list \<Rightarrow> ('m \<Rightarrow> fval list) \<Rightarrow> conn \<Rightarrow> u16 \<Rightarrow> 'm \<Rightarrow> world \<Rightarrow> (go_error option \<times> world) option" where
  "send_struct fs to_vals c instruction m w = do {
     data \<leftarrow> encode_struct fs to_vals m;
     case data of
       Inl err \<Rightarrow> Some (Some err, w)
     | Inr data \<Rightarrow> Some (write_conn c instruction data w)
   }"

text \<open>The type assertions to \<open>*mdwuser.User\<close> give nil for an empty seat.\<close>

definition you_join_room :: "bool \<Rightarrow> mroom \<Rightarrow> bytes \<Rightarrow> C_YouJoinRoom" where
  "you_join_room isSuccess room moves =
     \<lparr>yj_IsSuccess = isSuccess,
      yj_RoomName = Name room,
      yj_MaxUsers = word_of_int (MaxUsers room),
      yj_BlackUsername = GetUsername (BlackPlayer room) [],
      yj_WhileUsername = GetUsername (WhitePlayer room) [],
      yj_Onlookers = map Username
        (filter (\<lambda>user. \<not> (Some user = BlackPlayer room \<or> Some user = WhitePlayer room)) (Users room)),
      yj_ReadyPlayer = ReadyColor room,
      yj_IsPlaying = IsPlaying room,
      yj_RegretPlayer = RegretColor room,
      yj_TiePlayer = TieColor room,
      yj_Records = moves\<rparr>"

definition sendYouJoinRoom ::
  "room_mdw \<Rightarrow> conn \<Rightarrow> bool \<Rightarrow> mroom \<Rightarrow> world \<Rightarrow> (go_error option \<times> world) option" where
  "sendYouJoinRoom m c isSuccess room w =
     (if \<not> isSuccess then
        (let s = WriteBoolean False fresh_serializer
         in Some (write_conn c (rc_YouJoinRoom m) (raw s) w))
      else do {
        moves \<leftarrow> GetRecords (room_chess room);
        send_struct C_YouJoinRoom_fields C_YouJoinRoom_vals c (rc_YouJoinRoom m)
          (you_join_room isSuccess room moves) w
      })"

definition sendOtherJoinRoom ::
  "room_mdw \<Rightarrow> conn \<Rightarrow> gostring \<Rightarrow> byte \<Rightarrow> world \<Rightarrow> (go_error option \<times> world) option" where
  "sendOtherJoinRoom m c username role w =
     send_struct C_OtherJoinRoom_fields C_OtherJoinRoom_vals c (rc_OtherJoinRoom m)
       \<lparr>oj_Username = username, oj_Role = role\<rparr> w"

text \<open>The loop of receiveJoinRoom over the users of the room; errors are dropped.\<close>

fun notify_others :: "room_mdw \<Rightarrow> user \<Rightarrow> byte \<Rightarrow> user list \<Rightarrow> world \<Rightarrow> world option" where
  "notify_others m user role [] w = Some w"
| "notify_others m user role (otherUser # us) w =
     (if otherUser = user then notify_others m user role us w
      else do {
        (err, w) \<leftarrow> sendOtherJoinRoom m (user_conn otherUser) (Username otherUser) role w;
        notify_others m user role us w
      })"

text \<open>
  The user of a join request has passed the user middleware, so it is not nil; the model
  counts a nil user here as a panic, and the server theory shows that it does not occur.
\<close>

definition receiveJoinRoom ::
  "room_mdw \<Rightarrow> conn \<Rightarrow> bytes \<Rightarrow> 'db server \<Rightarrow> (go_error option \<times> 'db server) option" where
  "receiveJoinRoom m c data s = do {
     r \<leftarrow> decode_JoinRoom data;
     case r of
       Inl err \<Rightarrow> Some (Some err, s)
     | Inr i_join_room \<Rightarrow>
         let idx = unat (RoomID i_join_room); role = ijr_Role i_join_room in
         if idx \<ge> length (Rooms s) then Some (Some (ErrText ''wrong room id''), s)
         else do {
           user \<leftarrow> PUser (Payloads s c);
           let room = Rooms s ! idx;
           if role \<noteq> of_char (CHR ''P'') \<and> role \<noteq> of_char (CHR ''O'')
           then Some (Some (ErrText ''wrong role''), s)
           else
             let (err, room) =
               (if role = of_char (CHR ''P'') then joinAsPlayer user room else joinAsOnlooker user room);
               s = set_room idx room s
             in case err of
                Some err \<Rightarrow> Some (Some err, s)
              | None \<Rightarrow> do {
                  w \<leftarrow> notify_others m user role (Users room) (World s);
                  (err, w) \<leftarrow> sendYouJoinRoom m c True room w;
                  let s = s\<lparr>World := w\<rparr>;
                  case err of
                    Some err \<Rightarrow> Some (Some err, s)
                  | None \<Rightarrow> Some (None, set_payload c (Payloads s c\<lparr>PRoom := Some idx\<rparr>) s)
                }
         }
   }"

text \<open>The broadcast of a leaving user: every write goes to the connection of that user.\<close>

fun leave_broadcast :: "room_mdw \<Rightarrow> user \<Rightarrow> user list \<Rightarrow> world \<Rightarrow> world option" where
  "leave_broadcast m user [] w = Some w"
| "leave_broadcast m user (other # us) w = do {
     (err, w) \<leftarrow> send_struct S_LeaveRoom_fields S_LeaveRoom_vals (user_conn user) (rc_UserLeaveRoom m)
       \<lparr>slr_Username = Username other\<rparr> w;
     let w = (if err \<noteq> None then Conn_Close (user_conn user) w else w);
     leave_broadcast m user us w
   }"

definition processUserLeave :: "room_mdw \<Rightarrow> conn \<Rightarrow> 'db server \<Rightarrow> 'db server option" where
  "processUserLeave m c s =
     (case (PRoom (Payloads s c), PUser (Payloads s c)) of
        (Some idx, Some user) \<Rightarrow> do {
          let room = Rooms s ! idx;
          w \<leftarrow> leave_broadcast m user (Users room) (World s);
          Some (set_room idx (snd (mroom_leave user room)) (s\<lparr>World := w\<rparr>))
        }
      | _ \<Rightarrow> Some s)"

definition room_ProcessDistribute :: "room_mdw \<Rightarrow> 'db handler \<Rightarrow> 'db handler" where
  "room_ProcessDistribute m next ctx s = do {
     (err, s) \<leftarrow>
       (if Instruction ctx = rs_JoinRoom m then receiveJoinRoom m (Conn ctx) (Data ctx) s
        else Some (None, s));
     case err of
       Some err \<Rightarrow> Some (Some err, s)
     | None \<Rightarrow> do {
         (ignored, s) \<leftarrow> next ctx s;
         s \<leftarrow> (if Instruction ctx = rs_LeaveRoom m then processUserLeave m (Conn ctx) s else Some s);
         Some (None, s)
       }
   }"

definition room_ProcessConnect :: "'db connecting \<Rightarrow> 'db connecting" where
  "room_ProcessConnect next ctx ps = next ctx ps"

definition room_ProcessDisconnect :: "room_mdw \<Rightarrow> 'db disconnecting \<Rightarrow> 'db disconnecting" where
  "room_ProcessDisconnect m next c s = do {
     s \<leftarrow> processUserLeave m c s;
     next c s
   }"

definition room_NewPayload :: "nat option" where
  "room_NewPayload = None"

section \<open>The invariant of a room\<close>

definition mroom_ok :: "mroom \<Rightarrow> bool" where
  "mroom_ok room \<longleftrightarrow> room_ok room \<and> 2 \<le> MaxUsers room \<and> MaxUsers room \<le> 200"

lemma room_ok_extend [simp]:
  "room_ok (game_room.extend g ext) = room_ok g"
  "room_ok (room\<lparr>Users := us\<rparr>) = room_ok room"
  by (simp_all add: room_ok_def seated_def game_room.defs)

lemma mroom_NewRoom_ok: "mroom_ok (mroom_NewRoom name maxUser)"
proof -
  have "room_ok (mroom_NewRoom name maxUser)" by (simp add: mroom_NewRoom_def Let_def NewRoom_ok)
  then show ?thesis by (simp add: mroom_ok_def mroom_NewRoom_def game_room.defs mroom.defs MaxUsers_const_def Let_def)
qed

text \<open>The operations of the game room leave name, limit and users of a room alone.\<close>

lemma game_ops_frame [simp]:
  "MaxUsers (snd (Room_Join p room)) = MaxUsers room" "Users (snd (Room_Join p room)) = Users room"
  "Name (snd (Room_Join p room)) = Name room"
  "MaxUsers (snd (Room_Leave p room)) = MaxUsers room" "Users (snd (Room_Leave p room)) = Users room"
  "Name (snd (Room_Leave p room)) = Name room"
  "MaxUsers (snd (Room_Ready p room)) = MaxUsers room" "Users (snd (Room_Ready p room)) = Users room"
  "Name (snd (Room_Ready p room)) = Name room"
  "MaxUsers (snd (Room_Regret p room)) = MaxUsers room" "Users (snd (Room_Regret p room)) = Users room"
  "Name (snd (Room_Regret p room)) = Name room"
  "MaxUsers (snd (Room_ReplyRegret p a room)) = MaxUsers room"
  "Users (snd (Room_ReplyRegret p a room)) = Users room" "Name (snd (Room_ReplyRegret p a room)) = Name room"
  by (simp_all add: Room_Join_def Room_Leave_def Room_Ready_def Room_Regret_def Room_ReplyRegret_def
      Let_def split_beta)

lemma joinAsPlayer_eq:
  "joinAsPlayer user room =
    (if BlackPlayer room = None then (None, room\<lparr>BlackPlayer := Some user, Users := Users room @ [user]\<rparr>)
     else if WhitePlayer room = None then (None, room\<lparr>WhitePlayer := Some user, Users := Users room @ [user]\<rparr>)
     else (Some (ErrText ''the room is full of players''), room))"
  by (simp add: joinAsPlayer_def Room_Join_def)

lemma joinAsPlayer_ok: "mroom_ok room \<Longrightarrow> mroom_ok (snd (joinAsPlayer user room))"
  using Join_ok [of room user]
  by (cases "BlackPlayer room = None"; cases "WhitePlayer room = None")
    (auto simp: joinAsPlayer_eq mroom_ok_def Room_Join_def)

lemma joinAsOnlooker_ok: "mroom_ok room \<Longrightarrow> mroom_ok (snd (joinAsOnlooker user room))"
  by (simp add: joinAsOnlooker_def mroom_ok_def)

lemma mroom_leave_ok: "mroom_ok room \<Longrightarrow> mroom_ok (snd (mroom_leave user room))"
  using Leave_ok [of room "Some user"] by (simp add: mroom_leave_def mroom_ok_def split_beta)

section \<open>Sending never panics\<close>

lemma send_struct_returns:
  assumes "typed fs (to_vals m)"
  shows "\<exists>err w'. send_struct fs to_vals c i m w = Some (err, w') \<and> wframe w w'"
proof -
  obtain r where r: "encode_struct fs to_vals m = Some r" using encode_returns [of fs to_vals m, OF assms] by blast
  then show ?thesis
  proof (cases r)
    case (Inr data)
    obtain err w' where "write_conn c i data w = (err, w')" by fastforce
    then show ?thesis using Inr r by (auto simp: send_struct_def intro: wframe_writeD)
  qed (use r in \<open>simp add: send_struct_def\<close>)
qed

lemmas send_other_returns = send_struct_returns [of C_OtherJoinRoom_fields C_OtherJoinRoom_vals, OF other_join_msg.typed]
lemmas send_leave_returns = send_struct_returns [of S_LeaveRoom_fields S_LeaveRoom_vals, OF leave_room_msg.typed]
lemmas send_you_returns = send_struct_returns [of C_YouJoinRoom_fields C_YouJoinRoom_vals, OF you_join_msg.typed]

lemma notify_others_returns: "\<exists>w'. notify_others m user role us w = Some w' \<and> wframe w w'"
proof (induction us arbitrary: w)
  case Nil
  then show ?case by simp
next
  case (Cons u us)
  obtain err w1 where "sendOtherJoinRoom m (user_conn u) (Username u) role w = Some (err, w1)" "wframe w w1"
    using send_other_returns by (fastforce simp: sendOtherJoinRoom_def)
  then show ?case using Cons.IH [of w] Cons.IH [of w1] by (auto intro: wframe_trans)
qed

lemma leave_broadcast_returns: "\<exists>w'. leave_broadcast m user us w = Some w' \<and> wframe w w'"
proof (induction us arbitrary: w)
  case Nil
  then show ?case by simp
next
  case (Cons u us)
  obtain err w1 where s: "send_struct S_LeaveRoom_fields S_LeaveRoom_vals (user_conn user) (rc_UserLeaveRoom m)
       \<lparr>slr_Username = Username u\<rparr> w = Some (err, w1)" "wframe w w1"
    using send_leave_returns by fastforce
  let ?w2 = "if err \<noteq> None then Conn_Close (user_conn user) w1 else w1"
  have "wframe w ?w2" using s(2) by (auto intro: wframe_trans)
  then show ?case using s(1) Cons.IH [of ?w2] by (auto simp: Let_def intro: wframe_trans)
qed

lemma sendYouJoinRoom_returns:
  assumes "chess_ok (room_chess room)"
  shows "\<exists>err w'. sendYouJoinRoom m c b room w = Some (err, w') \<and> wframe w w'"
proof -
  obtain moves where "GetRecords (room_chess room) = Some moves"
    using chess_ok_cursor [OF assms] chess_ok_shape [OF assms]
    by (auto simp: GetRecords_def chess_shape_def)
  then show ?thesis
    using send_you_returns [of c "rc_YouJoinRoom m" "you_join_room b room moves" w]
    by (cases b; cases "write_conn c (rc_YouJoinRoom m) (raw (WriteBoolean False fresh_serializer)) w")
      (auto simp: sendYouJoinRoom_def Let_def intro: wframe_writeD)
qed

section \<open>What the middleware does to the server\<close>

text \<open>Everything behind the user middleware keeps the database, the users and the number of rooms.\<close>

definition room_frame :: "'db server \<Rightarrow> 'db server \<Rightarrow> bool" where
  "room_frame s s' \<longleftrightarrow>
     Db s' = Db s \<and> next_user s' = next_user s \<and> connectionSet s' = connectionSet s \<and>
     length (Rooms s') = length (Rooms s) \<and> wframe (World s) (World s')"

abbreviation rooms_ok :: "'db server \<Rightarrow> bool" where
  "rooms_ok s \<equiv> list_all mroom_ok (Rooms s)"

lemma room_frame_refl [intro, simp]: "room_frame s s"
  by (simp add: room_frame_def)

lemma room_frame_trans [trans]: "room_frame s s' \<Longrightarrow> room_frame s' s'' \<Longrightarrow> room_frame s s''"
  by (auto simp: room_frame_def intro: wframe_trans)

lemma room_frame_updates:
  "room_frame s (set_room i r s)" "room_frame s (set_payload c p s)"
  "wframe (World s) w \<Longrightarrow> room_frame s (s\<lparr>World := w\<rparr>)"
  by (simp_all add: room_frame_def)

lemma rooms_ok_set: "rooms_ok s \<Longrightarrow> mroom_ok r \<Longrightarrow> rooms_ok (set_room i r s)"
  by (auto simp: list_all_iff dest!: set_update_subset_insert [THEN subsetD])

lemma rooms_ok_nth: "rooms_ok s \<Longrightarrow> i < length (Rooms s) \<Longrightarrow> mroom_ok (Rooms s ! i)"
  by (simp add: list_all_length)

text \<open>The part of receiveJoinRoom behind the checks of room number and role.\<close>

definition admit :: "byte \<Rightarrow> user \<Rightarrow> mroom \<Rightarrow> go_error option \<times> mroom" where
  "admit role user room =
     (if role = of_char (CHR ''P'') then joinAsPlayer user room else joinAsOnlooker user room)"

lemma admit_ok: "mroom_ok room \<Longrightarrow> mroom_ok (snd (admit role user room))"
  by (simp add: admit_def joinAsPlayer_ok joinAsOnlooker_ok)

definition enter ::
  "room_mdw \<Rightarrow> conn \<Rightarrow> nat \<Rightarrow> byte \<Rightarrow> user \<Rightarrow> 'db server \<Rightarrow> (go_error option \<times> 'db server) option" where
  "enter m c idx role user s =
     (case admit role user (Rooms s ! idx) of
        (Some err, room) \<Rightarrow> Some (Some err, set_room idx room s)
      | (None, room) \<Rightarrow> do {
          w \<leftarrow> notify_others m user role (Users room) (World (set_room idx room s));
          (err, w) \<leftarrow> sendYouJoinRoom m c True room w;
          let s = set_room idx room s\<lparr>World := w\<rparr>;
          case err of
            Some err \<Rightarrow> Some (Some err, s)
          | None \<Rightarrow> Some (None, set_payload c (Payloads s c\<lparr>PRoom := Some idx\<rparr>) s)
        })"

lemma receiveJoinRoom_cases:
  "receiveJoinRoom m c data s =
    (case decode_JoinRoom data of
       None \<Rightarrow> panic
     | Some (Inl err) \<Rightarrow> Some (Some err, s)
     | Some (Inr i) \<Rightarrow>
         if unat (RoomID i) \<ge> length (Rooms s) then Some (Some (ErrText ''wrong room id''), s)
         else (case PUser (Payloads s c) of
             None \<Rightarrow> panic
           | Some user \<Rightarrow>
               if ijr_Role i \<noteq> of_char (CHR ''P'') \<and> ijr_Role i \<noteq> of_char (CHR ''O'')
               then Some (Some (ErrText ''wrong role''), s)
               else enter m c (unat (RoomID i)) (ijr_Role i) user s))"
proof -
  have "(case a of (err, room) \<Rightarrow> let s = set_room idx room s in case err of Some err \<Rightarrow> Some (Some err, s)
      | None \<Rightarrow> f room s) =
      (case a of (Some err, room) \<Rightarrow> Some (Some err, set_room idx room s) | (None, room) \<Rightarrow> f room (set_room idx room s))"
    for a :: "go_error option \<times> mroom" and idx and f
    by (simp add: Let_def split: prod.splits option.splits)
  then show ?thesis
    by (simp add: receiveJoinRoom_def enter_def admit_def Let_def split: option.splits sum.splits)
qed

text \<open>The outcome of a join request: the payload has a room exactly when there is no error.\<close>

definition join_outcome :: "conn \<Rightarrow> 'db server \<Rightarrow> go_error option \<Rightarrow> 'db server \<Rightarrow> bool" where
  "join_outcome c s err s' \<longleftrightarrow>
     rooms_ok s' \<and> room_frame s s' \<and>
     (if err = None then \<exists>idx < length (Rooms s). Payloads s' = (Payloads s)(c := Payloads s c\<lparr>PRoom := Some idx\<rparr>)
      else Payloads s' = Payloads s)"

lemma join_refused: "rooms_ok s \<Longrightarrow> join_outcome c s (Some e) s"
  by (simp add: join_outcome_def)

lemma enter_returns:
  assumes ok: "rooms_ok s" and idx: "idx < length (Rooms s)"
  shows "\<exists>err s'. enter m c idx role user s = Some (err, s') \<and> join_outcome c s err s'"
proof -
  obtain err room where adm: "admit role user (Rooms s ! idx) = (err, room)" by fastforce
  have room: "mroom_ok room" using admit_ok [OF rooms_ok_nth [OF ok idx], of role user] adm by simp
  then have chess: "chess_ok (room_chess room)" by (simp add: mroom_ok_def room_ok_def)
  note s1 = rooms_ok_set [OF ok room, of idx] room_frame_updates(1) [of s idx room]
  show ?thesis
  proof (cases err)
    case (Some e)
    then show ?thesis using adm s1 by (simp add: enter_def join_outcome_def)
  next
    case None
    obtain w1 where w1: "notify_others m user role (Users room) (World s) = Some w1" "wframe (World s) w1"
      using notify_others_returns by blast
    obtain err2 w2 where w2: "sendYouJoinRoom m c True room w1 = Some (err2, w2)" "wframe w1 w2"
      using sendYouJoinRoom_returns [OF chess] by blast
    have "wframe (World s) w2" using w1(2) w2(2) by (rule wframe_trans)
    then show ?thesis
      using None adm w1(1) w2(1) s1 idx
      by (cases err2) (auto simp: enter_def Let_def room_frame_def join_outcome_def)
  qed
qed

lemma receiveJoinRoom_returns:
  assumes ok: "rooms_ok s" and user: "PUser (Payloads s c) \<noteq> None"
  shows "\<exists>err s'. receiveJoinRoom m c data s = Some (err, s') \<and> join_outcome c s err s'"
proof (cases data rule: decode_JoinRoom_cases)
  case (1 err)
  then show ?thesis using join_refused [OF ok] by (simp add: receiveJoinRoom_cases)
next
  case (2 i)
  obtain u where u: "PUser (Payloads s c) = Some u" using user by blast
  show ?thesis
  proof (cases "unat (RoomID i) \<ge> length (Rooms s)")
    case True
    then show ?thesis using 2 join_refused [OF ok] by (simp add: receiveJoinRoom_cases)
  next
    case False
    then show ?thesis
      using 2 u join_refused [OF ok] enter_returns [OF ok, of "unat (RoomID i)" m c "ijr_Role i" u]
      by (cases "ijr_Role i \<noteq> of_char (CHR ''P'') \<and> ijr_Role i \<noteq> of_char (CHR ''O'')")
        (simp_all add: receiveJoinRoom_cases not_le)
  qed
qed

lemma processUserLeave_returns:
  assumes ok: "rooms_ok s" and idx: "\<And>idx. PRoom (Payloads s c) = Some idx \<Longrightarrow> idx < length (Rooms s)"
  shows "\<exists>s'. processUserLeave m c s = Some s' \<and> rooms_ok s' \<and> room_frame s s' \<and> Payloads s' = Payloads s"
proof (cases "PRoom (Payloads s c) = None \<or> PUser (Payloads s c) = None")
  case True
  then show ?thesis using ok by (auto simp: processUserLeave_def split: option.splits)
next
  case False
  then obtain i u where iu: "PRoom (Payloads s c) = Some i" "PUser (Payloads s c) = Some u" by auto
  obtain w where w: "leave_broadcast m u (Users (Rooms s ! i)) (World s) = Some w" "wframe (World s) w"
    using leave_broadcast_returns by blast
  let ?room = "snd (mroom_leave u (Rooms s ! i))"
  have "mroom_ok ?room" using mroom_leave_ok [OF rooms_ok_nth [OF ok idx]] iu(1) by blast
  then have "rooms_ok (set_room i ?room (s\<lparr>World := w\<rparr>))"
    using rooms_ok_set [of "s\<lparr>World := w\<rparr>"] ok by simp
  then show ?thesis using iu w by (auto simp: processUserLeave_def Let_def room_frame_def)
qed

section \<open>What is written\<close>


lemma write_conn_to:
  assumes "write_conn c i data w = (err, w')"
  shows "\<exists>l. net_out w' = net_out w @ l \<and> fst ` set l \<subseteq> {c}" "net_closed w' = net_closed w"
  using assms
  by (auto simp: write_conn_def Conn_Write_spec tcp_write_def Let_def split: prod.splits if_splits)

lemma write_conn_closed:
  "c \<in> set (net_closed w) \<Longrightarrow> \<exists>e. fst (write_conn c i data w) = Some e"
  by (auto simp: write_conn_def Conn_Write_spec tcp_write_def Let_def split: prod.splits if_splits)


lemma send_struct_to:
  assumes "send_struct fs to_vals c i m w = Some (err, w')"
  shows "(\<exists>l. net_out w' = net_out w @ l \<and> fst ` set l \<subseteq> {c}) \<and> net_closed w' = net_closed w"
proof -
  obtain r where r: "encode_struct fs to_vals m = Some r"
    using assms by (auto simp: send_struct_def bind_eq_Some_conv)
  show ?thesis
  proof (cases r)
    case (Inl e)
    then show ?thesis using r assms by (simp add: send_struct_def)
  next
    case (Inr data)
    then have "write_conn c i data w = (err, w')" using r assms by (simp add: send_struct_def)
    then show ?thesis using write_conn_to by blast
  qed
qed

lemma send_struct_closed:
  assumes "typed fs (to_vals m)" "c \<in> set (net_closed w)"
  shows "\<exists>e w'. send_struct fs to_vals c i m w = Some (Some e, w')"
proof -
  obtain r where "encode_struct fs to_vals m = Some r" using encode_returns [of fs to_vals m, OF assms(1)] by blast
  then show ?thesis
    by (cases r; simp add: send_struct_def) (metis write_conn_closed [OF assms(2)] prod.collapse)
qed

text \<open>The broadcast of a leaving user touches the connection of that user only.\<close>

lemma leave_broadcast_to:
  "leave_broadcast m user us w = Some w' \<Longrightarrow>
   (\<exists>l. net_out w' = net_out w @ l \<and> fst ` set l \<subseteq> {user_conn user}) \<and>
   set (net_closed w') \<subseteq> insert (user_conn user) (set (net_closed w))"
proof (induction us arbitrary: w)
  case Nil
  then show ?case by auto
next
  case (Cons u us)
  then obtain err w1 where s: "send_struct S_LeaveRoom_fields S_LeaveRoom_vals (user_conn user) (rc_UserLeaveRoom m)
       \<lparr>slr_Username = Username u\<rparr> w = Some (err, w1)"
    "leave_broadcast m user us (if err \<noteq> None then Conn_Close (user_conn user) w1 else w1) = Some w'"
    by (auto simp: bind_eq_Some_conv Let_def)
  from send_struct_to [OF s(1)] obtain l where "net_out w1 = net_out w @ l" "fst ` set l \<subseteq> {user_conn user}"
    "net_closed w1 = net_closed w" by blast
  moreover from Cons.IH [OF s(2)] obtain l' where "net_out w' = net_out w1 @ l'" "fst ` set l' \<subseteq> {user_conn user}"
    "set (net_closed w') \<subseteq> insert (user_conn user) (set (net_closed w1))" by (auto split: if_splits)
  ultimately show ?case by auto
qed

text \<open>The welcome fails on a closed connection and with more onlookers than its length prefix counts.\<close>

lemma send_struct_unencodable:
  assumes "typed fs (to_vals m)" "\<not> list_all2 encodable fs (to_vals m)"
  shows "\<exists>e. send_struct fs to_vals c i m w = Some (Some e, w)"
proof -
  obtain r where r: "marshal_fields fs (to_vals m) = Some r" using marshal_fields_total [OF assms(1)] by blast
  then have "\<nexists>bs. r = Inr bs" using marshal_fields_ok [OF assms(1)] assms(2) by auto
  then obtain e where "r = Inl e" by (cases r) auto
  then show ?thesis using r by (simp add: send_struct_def encode_struct_def)
qed

lemma welcome_fails:
  assumes "GetRecords (room_chess room) = Some moves"
    and "c \<in> set (net_closed w) \<or> 255 < length (yj_Onlookers (you_join_room True room moves))"
  shows "\<exists>e w'. sendYouJoinRoom m c True room w = Some (Some e, w')"
proof -
  have send: "sendYouJoinRoom m c True room w =
      send_struct C_YouJoinRoom_fields C_YouJoinRoom_vals c (rc_YouJoinRoom m) (you_join_room True room moves) w"
    using assms(1) by (simp add: sendYouJoinRoom_def)
  show ?thesis
  proof (cases "c \<in> set (net_closed w)")
    case True
    then show ?thesis
      unfolding send by (rule send_struct_closed [of C_YouJoinRoom_fields C_YouJoinRoom_vals, OF you_join_msg.typed])
  next
    case False
    then have "\<not> list_all2 encodable C_YouJoinRoom_fields (C_YouJoinRoom_vals (you_join_room True room moves))"
      using assms(2) by (simp add: message_defs array_fits_def fits_tag_def)
    from send_struct_unencodable [of C_YouJoinRoom_fields C_YouJoinRoom_vals, OF you_join_msg.typed this] show ?thesis unfolding send by blast
  qed
qed

text \<open>The frames of a broadcast of a leaving user whose connection takes every write.\<close>

lemma send_leave_writable:
  assumes "writable c w" "length name < 256"
  shows "send_struct S_LeaveRoom_fields S_LeaveRoom_vals c i \<lparr>slr_Username = name\<rparr> w =
    Some (None, w\<lparr>net_writes := net_writes w + 1, net_out := net_out w @ [(c, frame i (enc8 name))]\<rparr>)"
proof -
  have "encode_struct S_LeaveRoom_fields S_LeaveRoom_vals \<lparr>slr_Username = name\<rparr> = Some (Inr (enc8 name))"
    using assms(2)
    by (simp add: encode_struct_def message_defs marshal_field.simps writeString_def writeLen_def enc8_def Let_def)
  then show ?thesis using assms by (simp add: send_struct_def write_conn_writable enc8_def)
qed

lemma leave_broadcast_writable:
  assumes "writable (user_conn user) w" "\<forall>u \<in> set us. length (Username u) < 256"
  shows "\<exists>w'. leave_broadcast m user us w = Some w' \<and> net_closed w' = net_closed w \<and>
    net_out w' = net_out w @ map (\<lambda>u. (user_conn user, frame (rc_UserLeaveRoom m) (enc8 (Username u)))) us"
  using assms
proof (induction us arbitrary: w)
  case Nil
  then show ?case by simp
next
  case (Cons u us)
  let ?w = "w\<lparr>net_writes := net_writes w + 1,
    net_out := net_out w @ [(user_conn user, frame (rc_UserLeaveRoom m) (enc8 (Username u)))]\<rparr>"
  show ?case using Cons.IH [of ?w] Cons.prems by (simp add: send_leave_writable Let_def)
qed

text \<open>The frames of the notification on connections that take every write.\<close>

lemma send_other_writable:
  assumes "writable (user_conn u) w" "length (Username u) < 256"
  shows "sendOtherJoinRoom m (user_conn u) (Username u) role w =
    Some (None, w\<lparr>net_writes := net_writes w + 1,
      net_out := net_out w @ [(user_conn u, frame (rc_OtherJoinRoom m) (enc8 (Username u) @ [role]))]\<rparr>)"
proof -
  have "encode_struct C_OtherJoinRoom_fields C_OtherJoinRoom_vals \<lparr>oj_Username = Username u, oj_Role = role\<rparr> =
      Some (Inr (enc8 (Username u) @ [role]))"
    using assms(2)
    by (simp add: encode_struct_def message_defs marshal_field.simps writeString_def writeLen_def enc8_def Let_def)
  then show ?thesis
    using assms by (simp add: sendOtherJoinRoom_def send_struct_def write_conn_writable enc8_def)
qed

lemma notify_others_writable:
  assumes "\<forall>u \<in> set us. writable (user_conn u) w \<and> length (Username u) < 256"
  shows "\<exists>w'. notify_others m user role us w = Some w' \<and>
    net_out w' = net_out w @ map (\<lambda>u. (user_conn u, frame (rc_OtherJoinRoom m) (enc8 (Username u) @ [role])))
      (filter (\<lambda>u. u \<noteq> user) us)"
  using assms
proof (induction us arbitrary: w)
  case Nil
  then show ?case by simp
next
  case (Cons u us)
  show ?case
  proof (cases "u = user")
    case True
    then show ?thesis using Cons by simp
  next
    case False
    let ?w = "w\<lparr>net_writes := net_writes w + 1,
      net_out := net_out w @ [(user_conn u, frame (rc_OtherJoinRoom m) (enc8 (Username u) @ [role]))]\<rparr>"
    show ?thesis
      using False Cons.IH [of ?w] Cons.prems by (auto simp: send_other_writable)
  qed
qed

section \<open>Players who come and go\<close>

fun visits :: "user list \<Rightarrow> mroom \<Rightarrow> mroom" where
  "visits [] room = room"
| "visits (u # us) room = visits us (snd (mroom_leave u (snd (joinAsPlayer u room))))"

lemma visit_once:
  assumes "BlackPlayer room = None" "WhitePlayer room = None"
  shows "Users (snd (mroom_leave u (snd (joinAsPlayer u room)))) = Users room @ [u]"
    "BlackPlayer (snd (mroom_leave u (snd (joinAsPlayer u room)))) = None"
    "WhitePlayer (snd (mroom_leave u (snd (joinAsPlayer u room)))) = None"
    "MaxUsers (snd (mroom_leave u (snd (joinAsPlayer u room)))) = MaxUsers room"
  using assms by (simp_all add: joinAsPlayer_eq mroom_leave_def Leave_black)

lemma visits_room:
  "BlackPlayer room = None \<Longrightarrow> WhitePlayer room = None \<Longrightarrow>
   Users (visits us room) = Users room @ us \<and> BlackPlayer (visits us room) = None \<and>
   WhitePlayer (visits us room) = None \<and> MaxUsers (visits us room) = MaxUsers room"
  by (induction us arbitrary: room) (simp_all add: visit_once)

section \<open>A hall with one room\<close>

text \<open>A server with one empty room, where every connection belongs to the user foo.\<close>

definition hall_mdw :: room_mdw where
  "hall_mdw = \<lparr>rs_JoinRoom = 7, rs_LeaveRoom = 3, rc_YouJoinRoom = 2, rc_OtherJoinRoom = 4,
     rc_UserLeaveRoom = 5, rc_GameOver = 13\<rparr>"

definition hall :: "unit server" where
  "hall = empty_server ()
     \<lparr>Rooms := [mroom_NewRoom (lit ''hall'') 10],
      Payloads := \<lambda>_. \<lparr>PUser = Some (NewUser 0 (lit ''foo'') 3 0), PRoom = None, Executions = []\<rparr>\<rparr>"

lemma hall_sel:
  "Rooms hall = [mroom_NewRoom (lit ''hall'') 10]" "PUser (Payloads hall c) = Some (NewUser 0 (lit ''foo'') 3 0)"
  "PRoom (Payloads hall c) = None" "BlackPlayer (mroom_NewRoom n k) = None"
  by (simp_all add: hall_def mroom_NewRoom_def game_room.defs game_NewRoom_def Let_def)


text \<open>The room with 256 users who took a seat and left it, and the room with foo and another user.\<close>

definition departed_hall :: "unit server" where
  "departed_hall = hall\<lparr>Rooms :=
     [(mroom_NewRoom (lit ''hall'') 10)\<lparr>Users := replicate 256 (NewUser 2 (lit ''old'') 4 0)\<rparr>]\<rparr>"

lemma departed_hall_sel:
  "Rooms departed_hall = [(mroom_NewRoom (lit ''hall'') 10)\<lparr>Users := replicate 256 (NewUser 2 (lit ''old'') 4 0)\<rparr>]"
  "PUser (Payloads departed_hall c) = Some (NewUser 0 (lit ''foo'') 3 0)"
  "PRoom (Payloads departed_hall c) = None" "BlackPlayer (mroom_NewRoom n k) = None" "mroom_ok ((mroom_NewRoom n k)\<lparr>Users := us\<rparr>)"
  "length (filter (\<lambda>u. u \<noteq> NewUser 0 (lit ''foo'') 3 0 \<and> Some u \<noteq> WhitePlayer (mroom_NewRoom n k))
    (replicate 256 (NewUser 2 (lit ''old'') 4 0))) = 256"
proof -
  have white: "WhitePlayer (mroom_NewRoom n k) = None" for n k
    by (simp add: mroom_NewRoom_def game_room.defs game_NewRoom_def Let_def)
  show "length (filter (\<lambda>u. u \<noteq> NewUser 0 (lit ''foo'') 3 0 \<and> Some u \<noteq> WhitePlayer (mroom_NewRoom n k))
      (replicate 256 (NewUser 2 (lit ''old'') 4 0))) = 256"
    by (simp only: white filter_replicate) (simp add: NewUser_def)
  show "mroom_ok ((mroom_NewRoom n k)\<lparr>Users := us\<rparr>)"
    using mroom_NewRoom_ok [of n k] by (simp add: mroom_ok_def)
qed (simp_all add: departed_hall_def hall_sel)

definition shared_hall :: "unit server" where
  "shared_hall = hall
     \<lparr>Rooms := [(mroom_NewRoom (lit ''hall'') 10)\<lparr>Users := [NewUser 0 (lit ''foo'') 3 0, NewUser 1 (lit ''old'') 4 0]\<rparr>],
      Payloads := \<lambda>_. \<lparr>PUser = Some (NewUser 0 (lit ''foo'') 3 0), PRoom = Some 0, Executions = []\<rparr>\<rparr>"

lemma shared_hall_sel:
  "Users (Rooms shared_hall ! 0) = [NewUser 0 (lit ''foo'') 3 0, NewUser 1 (lit ''old'') 4 0]"
  "Payloads shared_hall c = \<lparr>PUser = Some (NewUser 0 (lit ''foo'') 3 0), PRoom = Some 0, Executions = []\<rparr>"
  "net_out (World shared_hall) = []" "net_closed (World shared_hall) = []" "\<not> net_fail (World shared_hall) k"
  by (simp_all add: shared_hall_def hall_def empty_server_def quiet_world_def)

section \<open>Properties\<close>

text \<open>
  The room middleware starts with at most 200 rooms, the first ones of the
  configuration in order; each has its configured name, a limit between 2 and 200 that is
  the configured one where that lies in the range, no users, no players and no game.
\<close>

lemma room_NewMiddleware_clamps:
  "let (m, rooms) = room_NewMiddleware sj sl cy co cu cg config in
   length rooms = min 200 (length config) \<and>
   map Name rooms = map cr_Name (take 200 config) \<and>
   map MaxUsers rooms = map (\<lambda>r. max 2 (min 200 (cr_MaxUsers r))) (take 200 config) \<and>
   list_all (\<lambda>room. mroom_ok room \<and> Users room = [] \<and> PlayerCount room = 0 \<and> \<not> IsPlaying room) rooms"
proof -
  have one: "Name (mroom_NewRoom n k) = n" "MaxUsers (mroom_NewRoom n k) = max 2 (min 200 k)"
    "Users (mroom_NewRoom n k) = []" "PlayerCount (mroom_NewRoom n k) = 0" "\<not> IsPlaying (mroom_NewRoom n k)" for n k
    by (simp_all add: mroom_NewRoom_def game_room.defs mroom.defs MaxUsers_const_def Let_def PlayerCount_def game_NewRoom_def)
  have "(if length config < MaxRooms then length config else MaxRooms) = min 200 (length config)"
    by (simp add: MaxRooms_def)
  moreover have "map f [0..<min 200 (length config)] = map (\<lambda>i. f i) [0..<length (take 200 config)]"
    for f :: "nat \<Rightarrow> mroom" by (simp add: min.commute)
  ultimately show ?thesis
    by (auto simp: room_NewMiddleware_def Let_def list_all_iff one mroom_NewRoom_ok intro!: nth_equalityI)
qed



text \<open>
  Claim C34. A failed welcome keeps the seat: when a user takes the black seat and the
  YouJoinRoom message cannot be encoded, because the room lists more than 255 users besides
  the players, or cannot be written, because the connection is closed, receiveJoinRoom
  reports the error but the seat and the list of users keep the user, while the payload of
  the connection stays without a room. The clean-up of the connection then does nothing, so
  nobody frees the seat.
\<close>

theorem failed_welcome_keeps_the_seat:
  assumes "rooms_ok s" "decode_JoinRoom data = Some (Inr i)" "ijr_Role i = of_char (CHR ''P'')"
    and "unat (RoomID i) < length (Rooms s)" "PUser (Payloads s c) = Some user" "PRoom (Payloads s c) = None"
    and "BlackPlayer (Rooms s ! unat (RoomID i)) = None"
    and "c \<in> set (net_closed (World s)) \<or>
      255 < length (filter (\<lambda>u. u \<noteq> user \<and> Some u \<noteq> WhitePlayer (Rooms s ! unat (RoomID i))) (Users (Rooms s ! unat (RoomID i))))"
  shows "\<exists>e s'. receiveJoinRoom m c data s = Some (Some e, s') \<and>
    BlackPlayer (Rooms s' ! unat (RoomID i)) = Some user \<and> user \<in> set (Users (Rooms s' ! unat (RoomID i))) \<and>
    processUserLeave m c s' = Some s'"
proof -
  let ?idx = "unat (RoomID i)"
  let ?room = "(Rooms s ! ?idx)\<lparr>BlackPlayer := Some user, Users := Users (Rooms s ! ?idx) @ [user]\<rparr>"
  have adm: "admit (ijr_Role i) user (Rooms s ! ?idx) = (None, ?room)"
    using assms(3,7) by (simp add: admit_def joinAsPlayer_eq)
  then have "mroom_ok ?room"
    using admit_ok [OF rooms_ok_nth [OF assms(1,4)], of "ijr_Role i" user] by simp
  then have "chess_ok (room_chess ?room)" unfolding mroom_ok_def room_ok_def by blast
  then obtain moves where moves: "GetRecords (room_chess ?room) = Some moves"
    using chess_ok_cursor chess_ok_shape by (fastforce simp: GetRecords_def chess_shape_def)
  obtain w1 where w1: "notify_others m user (ijr_Role i) (Users ?room) (World s) = Some w1" "wframe (World s) w1"
    using notify_others_returns by blast
  then have "c \<in> set (net_closed w1) \<or> 255 < length (yj_Onlookers (you_join_room True ?room moves))"
    using assms(8) by (auto simp: wframe_def you_join_room_def eq_commute [of _ user])
  then obtain e w2 where w2: "sendYouJoinRoom m c True ?room w1 = Some (Some e, w2)"
    using welcome_fails [OF moves] by blast
  have "receiveJoinRoom m c data s = Some (Some e, set_room ?idx ?room s\<lparr>World := w2\<rparr>)"
    using assms(2-5) adm w1(1) w2 by (simp add: receiveJoinRoom_cases enter_def Let_def)
  then show ?thesis using assms(4,6) by (simp add: processUserLeave_def)
qed

text \<open>A closed connection, and a room that 256 players have left.\<close>

theorem failed_welcome_keeps_the_seat_witness:
  "(\<exists>e s'. receiveJoinRoom hall_mdw 3 (join_bytes (lit ''foo'') (lit ''bar''))
      (hall\<lparr>World := quiet_world\<lparr>net_closed := [3]\<rparr>\<rparr>) = Some (Some e, s') \<and>
    BlackPlayer (Rooms s' ! 0) = Some (NewUser 0 (lit ''foo'') 3 0) \<and> processUserLeave hall_mdw 3 s' = Some s') \<and>
   (\<exists>e s'. receiveJoinRoom hall_mdw 3 (join_bytes (lit ''foo'') (lit ''bar'')) departed_hall = Some (Some e, s') \<and>
    BlackPlayer (Rooms s' ! 0) = Some (NewUser 0 (lit ''foo'') 3 0) \<and> processUserLeave hall_mdw 3 s' = Some s')"
proof
  show "\<exists>e s'. receiveJoinRoom hall_mdw 3 (join_bytes (lit ''foo'') (lit ''bar''))
      (hall\<lparr>World := quiet_world\<lparr>net_closed := [3]\<rparr>\<rparr>) = Some (Some e, s') \<and>
    BlackPlayer (Rooms s' ! 0) = Some (NewUser 0 (lit ''foo'') 3 0) \<and> processUserLeave hall_mdw 3 s' = Some s'"
    using failed_welcome_keeps_the_seat [OF _ join_bytes_foo, where m = hall_mdw and c = 3
        and s = "hall\<lparr>World := quiet_world\<lparr>net_closed := [3]\<rparr>\<rparr>" and user = "NewUser 0 (lit ''foo'') 3 0"]
    by (simp add: hall_sel mroom_NewRoom_ok) blast
  show "\<exists>e s'. receiveJoinRoom hall_mdw 3 (join_bytes (lit ''foo'') (lit ''bar'')) departed_hall = Some (Some e, s') \<and>
    BlackPlayer (Rooms s' ! 0) = Some (NewUser 0 (lit ''foo'') 3 0) \<and> processUserLeave hall_mdw 3 s' = Some s'"
    using failed_welcome_keeps_the_seat [OF _ join_bytes_foo, where m = hall_mdw and c = 3
        and s = departed_hall and user = "NewUser 0 (lit ''foo'') 3 0"]
    by (simp add: departed_hall_sel) blast
qed

text \<open>
  Claim C35. Departed players fill a room: players who take a seat of an empty room and
  leave again are never removed from its users. After as many visits as the room has places
  for onlookers, no onlooker can join, although nobody is there.
\<close>

theorem departed_players_fill_the_room:
  assumes "BlackPlayer room = None" "WhitePlayer room = None"
  shows "Users (visits us room) = Users room @ us \<and> PlayerCount (visits us room) = 0 \<and>
    (MaxUsers room - 2 \<le> int (length us) \<longrightarrow> fst (joinAsOnlooker u (visits us room)) \<noteq> None)"
  using visits_room [OF assms, of us] by (auto simp: joinAsOnlooker_def PlayerCount_def)

theorem departed_players_fill_the_room_witness:
  "fst (joinAsOnlooker (NewUser 1 [] 0 0) (visits (replicate 8 (NewUser 0 [] 0 0)) (mroom_NewRoom [] 10))) \<noteq> None"
  using departed_players_fill_the_room [of "mroom_NewRoom [] 10" "replicate 8 (NewUser 0 [] 0 0)"]
  by (simp add: mroom_NewRoom_def game_room.defs mroom.defs game_NewRoom_def MaxUsers_const_def)

text \<open>
  Claim C36. Leaving tells nobody else: the clean-up of a leaving user writes to the
  connection of that user only, and closes no other connection. When that connection takes
  every write, it is sent one frame for each user of the room, itself included, with the name
  of that user, and the other users are sent nothing.
\<close>

theorem leaving_tells_nobody_else:
  assumes "PUser (Payloads s c) = Some user" "PRoom (Payloads s c) = Some idx"
  shows "\<exists>s' log. processUserLeave m c s = Some s' \<and>
    net_out (World s') = net_out (World s) @ log \<and> (\<forall>entry \<in> set log. fst entry = user_conn user) \<and>
    set (net_closed (World s')) \<subseteq> insert (user_conn user) (set (net_closed (World s))) \<and>
    (user_conn user \<notin> set (net_closed (World s)) \<and> (\<forall>k. \<not> net_fail (World s) k) \<and>
     (\<forall>u \<in> set (Users (Rooms s ! idx)). length (Username u) < 256) \<longrightarrow>
       log = map (\<lambda>u. (user_conn user, frame (rc_UserLeaveRoom m) (enc8 (Username u)))) (Users (Rooms s ! idx)) \<and>
       net_closed (World s') = net_closed (World s))"
proof -
  let ?us = "Users (Rooms s ! idx)"
  obtain w where w: "leave_broadcast m user ?us (World s) = Some w"
    using leave_broadcast_returns by blast
  then have run: "processUserLeave m c s = Some (set_room idx (snd (mroom_leave user (Rooms s ! idx))) (s\<lparr>World := w\<rparr>))"
    using assms by (simp add: processUserLeave_def Let_def)
  obtain log where log: "net_out w = net_out (World s) @ log" "fst ` set log \<subseteq> {user_conn user}"
    "set (net_closed w) \<subseteq> insert (user_conn user) (set (net_closed (World s)))"
    using leave_broadcast_to [OF w] by blast
  have "log = map (\<lambda>u. (user_conn user, frame (rc_UserLeaveRoom m) (enc8 (Username u)))) ?us \<and>
      net_closed w = net_closed (World s)"
    if "user_conn user \<notin> set (net_closed (World s)) \<and> (\<forall>k. \<not> net_fail (World s) k) \<and>
      (\<forall>u \<in> set ?us. length (Username u) < 256)"
    using leave_broadcast_writable [of user "World s" ?us m] that w log(1) by (simp add: writable_def)
  then show ?thesis using run log
    by (intro exI [of _ "set_room idx (snd (mroom_leave user (Rooms s ! idx))) (s\<lparr>World := w\<rparr>)"] exI [of _ log]) auto
qed

text \<open>The user foo of connection 3 leaves a room with another user of connection 4.\<close>

theorem leaving_tells_nobody_else_witness:
  "\<exists>s'. processUserLeave hall_mdw 3 shared_hall = Some s' \<and>
    net_out (World s') = [(3, frame 5 (enc8 (lit ''foo''))), (3, frame 5 (enc8 (lit ''old'')))]"
  using leaving_tells_nobody_else [of shared_hall 3 "NewUser 0 (lit ''foo'') 3 0" 0 hall_mdw]
  by (auto simp: shared_hall_sel hall_mdw_def NewUser_def)

text \<open>
  Claim C37. The other users learn their own name: when every connection takes the write,
  the notification of a join sends each user but the new one a frame with the name of its
  recipient, so the name of the user who joined is never sent.
\<close>

theorem others_are_told_their_own_name:
  assumes "\<forall>u \<in> set us. user_conn u \<notin> set (net_closed w) \<and> length (Username u) < 256"
    and "\<forall>k. \<not> net_fail w k"
  shows "\<exists>w'. notify_others m user role us w = Some w' \<and>
    net_out w' = net_out w @ map (\<lambda>u. (user_conn u, frame (rc_OtherJoinRoom m) (enc8 (Username u) @ [role])))
      (filter (\<lambda>u. u \<noteq> user) us)"
  by (rule notify_others_writable) (use assms in \<open>simp add: writable_def\<close>)

theorem others_are_told_their_own_name_witness:
  "\<exists>w'. notify_others hall_mdw (NewUser 1 (lit ''new'') 4 0) 0x50 [NewUser 0 (lit ''old'') 3 0, NewUser 1 (lit ''new'') 4 0]
      quiet_world = Some w' \<and> net_out w' = [(3, frame 4 (enc8 (lit ''old'') @ [0x50]))]"
  using others_are_told_their_own_name [of "[NewUser 0 (lit ''old'') 3 0, NewUser 1 (lit ''new'') 4 0]" quiet_world
      hall_mdw "NewUser 1 (lit ''new'') 4 0" "0x50"]
  by (simp add: NewUser_def quiet_world_def hall_mdw_def)

end
