(* ===== verification/Endpoints.thy ===== *)
theory Endpoints
  imports MdwRoom
begin

text \<open>
  \<open>backend/server/send.go\<close> and \<open>backend/server/distribute.go\<close>: the messages of the game
  server and the handlers of its instructions, with the table that maps an instruction to
  its handler (four handlers of the table do nothing, and two written handlers are not in
  it). A handler that dereferences the room of a connection without one panics. The lemmas
  show that behind the middlewares no handler panics, except the one that reads a user name
  with the slicing reader, and what the handlers of ready and stone do.
\<close>

section \<open>Instructions\<close>

definition S_FatalError_op :: u16 where "S_FatalError_op = 0"
definition S_JoinRoom_op :: u16 where "S_JoinRoom_op = 1"
definition S_UserInfo_op :: u16 where "S_UserInfo_op = 2"
definition S_LeaveRoom_op :: u16 where "S_LeaveRoom_op = 3"
definition S_Ready_op :: u16 where "S_Ready_op = 4"
definition S_PlayerStone_op :: u16 where "S_PlayerStone_op = 5"
definition S_PlayerRegret_op :: u16 where "S_PlayerRegret_op = 6"
definition S_ReplyRegret_op :: u16 where "S_ReplyRegret_op = 7"
definition S_PlayerTie_op :: u16 where "S_PlayerTie_op = 8"
definition S_ReplyTie_op :: u16 where "S_ReplyTie_op = 9"
definition S_GiveUp_op :: u16 where "S_GiveUp_op = 10"
definition S_Message_op :: u16 where "S_Message_op = 11"

definition C_FatalError_op :: u16 where "C_FatalError_op = 0"
definition C_YouJoinRoom_op :: u16 where "C_YouJoinRoom_op = 2"
definition C_UserInfo_op :: u16 where "C_UserInfo_op = 3"
definition C_OtherJoinRoom_op :: u16 where "C_OtherJoinRoom_op = 4"
definition C_UserLeaveRoom_op :: u16 where "C_UserLeaveRoom_op = 5"
definition C_PlayerReady_op :: u16 where "C_PlayerReady_op = 6"
definition C_GameStart_op :: u16 where "C_GameStart_op = 7"
definition C_Stone_op :: u16 where "C_Stone_op = 8"
definition C_PlayerRegret_op :: u16 where "C_PlayerRegret_op = 9"
definition C_AgreeRegret_op :: u16 where "C_AgreeRegret_op = 10"
definition C_GameOver_op :: u16 where "C_GameOver_op = 13"
definition C_Message_op :: u16 where "C_Message_op = 14"

section \<open>Messages (send.go)\<close>

text \<open>A connection whose write fails is closed, and the broadcast goes on.\<close>

fun broadcastMessage :: "user list \<Rightarrow> u16 \<Rightarrow> bytes \<Rightarrow> world \<Rightarrow> world" where
  "broadcastMessage [] instruction data w = w"
| "broadcastMessage (user # us) instruction data w =
     (case write_conn (user_conn user) instruction data w of
        (Some err, w) \<Rightarrow> broadcastMessage us instruction data (Conn_Close (user_conn user) w)
      | (None, w) \<Rightarrow> broadcastMessage us instruction data w)"

definition sendVoid :: "conn \<Rightarrow> u16 \<Rightarrow> world \<Rightarrow> go_error option \<times> world" where
  "sendVoid c instruction w = write_conn c instruction [] w"

definition sendByte :: "conn \<Rightarrow> u16 \<Rightarrow> byte \<Rightarrow> world \<Rightarrow> go_error option \<times> world" where
  "sendByte c instruction b w =
     (case WriteByte b fresh_serializer of
        (Some err, s) \<Rightarrow> (Some err, w)
      | (None, s) \<Rightarrow> write_conn c instruction (raw s) w)"

definition sendBoolean :: "conn \<Rightarrow> u16 \<Rightarrow> bool \<Rightarrow> world \<Rightarrow> go_error option \<times> world" where
  "sendBoolean c instruction b w =
     (let s = WriteBoolean b fresh_serializer in write_conn c instruction (raw s) w)"

definition SendString :: "conn \<Rightarrow> u16 \<Rightarrow> gostring \<Rightarrow> world \<Rightarrow> go_error option \<times> world" where
  "SendString c instruction str w =
     (let s = snd (WriteString8 str fresh_serializer) in write_conn c instruction (raw s) w)"

definition SendUserInfo :: "conn \<Rightarrow> user \<Rightarrow> world \<Rightarrow> go_error option \<times> world" where
  "SendUserInfo c user w =
     (let s = snd (WriteString8 (Username user) fresh_serializer);
          s = WriteUint32 (NumOfWins user) s;
          s = WriteUint32 (NumOfTies user) s;
          s = WriteUint32 (NumOfLosses user) s;
          s = WriteUint32 (NumOfMatches user) s;
          s = WriteUint64 (GameDuration user) s
      in write_conn c C_UserInfo_op (raw s) w)"

definition SendGameOver :: "conn \<Rightarrow> byte \<Rightarrow> world \<Rightarrow> go_error option \<times> world" where
  "SendGameOver c color w = sendByte c C_GameOver_op color w"

definition SendMessage :: "conn \<Rightarrow> gostring \<Rightarrow> gostring \<Rightarrow> world \<Rightarrow> (go_error option \<times> world) option" where
  "SendMessage c username txt w =
     send_struct S_Message_fields S_Message_vals c C_Message_op
       \<lparr>sm_Timestamp = unix_now w, sm_Username = username, sm_Message = txt\<rparr> w"

section \<open>Handlers (distribute.go)\<close>

definition Empty :: "'db handler" where
  "Empty req s = Some (None, s)"

definition ReceiveUserInfo :: "'db handler" where
  "ReceiveUserInfo req s = do {
     (username, sr) \<leftarrow> ReadString8 (MakeSerializer (Data req) []);
     case username of
       Inl err \<Rightarrow> Some (Some err, s)
     | Inr username \<Rightarrow> do {
         idx \<leftarrow> PRoom (Payloads s (Conn req));
         case FindUser username (Rooms s ! idx) of
           None \<Rightarrow> Some (None, s)
         | Some user \<Rightarrow> Some (write_world (SendUserInfo (Conn req) user) s)
       }
   }"

record IGameStart =
  BlackPlayerName :: gostring

definition IGameStart_fields :: "field list" where
  "IGameStart_fields = [fld KString ''1'' '''']"

definition IGameStart_vals :: "IGameStart \<Rightarrow> fval list" where
  "IGameStart_vals i = [VString (BlackPlayerName i)]"

interpretation game_start_msg: wire_struct IGameStart_fields IGameStart_vals
  by unfold_locales (auto simp: IGameStart_fields_def IGameStart_vals_def has_kind_def)

definition ReceiveReady :: "'db handler" where
  "ReceiveReady req s = do {
     user \<leftarrow> PUser (Payloads s (Conn req));
     idx \<leftarrow> PRoom (Payloads s (Conn req));
     let ((color, ready, err), room) = Room_Ready (Some user) (Rooms s ! idx);
     let s = set_room idx room s;
     case err of
       Some err \<Rightarrow> Some (Some err, s)
     | None \<Rightarrow>
         if ready then do {
           black \<leftarrow> BlackPlayer room;
           data \<leftarrow> encode_struct IGameStart_fields IGameStart_vals \<lparr>BlackPlayerName = Username black\<rparr>;
           case data of
             Inl err \<Rightarrow> Some (Some err, s)
           | Inr data \<Rightarrow> do {
               let s = in_world (broadcastMessage (Users room) C_GameStart_op data) s;
               room \<leftarrow> Room_Start room;
               Some (None, set_room idx room s)
             }
         }
         else Some (None, in_world (broadcastMessage (Users room) C_PlayerReady_op [color]) s)
   }"

definition ReceiveLeaveRoom :: "'db handler" where
  "ReceiveLeaveRoom req s = do {
     idx \<leftarrow> PRoom (Payloads s (Conn req));
     user \<leftarrow> PUser (Payloads s (Conn req));
     let room = Rooms s ! idx;
     let color = PlayerColor (Some user) room;
     if color \<noteq> SPACE \<and> IsPlaying room
     then Some (write_world (SendGameOver (Conn req) (xor color 0x01)) s)
     else Some (None, s)
   }"

text \<open>The loop after a stone: a second write overwrites the error of the first, and errors are logged only.\<close>

fun stone_broadcast :: "user list \<Rightarrow> byte \<Rightarrow> bool \<Rightarrow> byte \<Rightarrow> world \<Rightarrow> world" where
  "stone_broadcast [] coor win who w = w"
| "stone_broadcast (user # us) coor win who w =
     (let (err, w) = sendByte (user_conn user) C_Stone_op coor w;
          (err, w) = (if win then sendByte (user_conn user) C_GameOver_op who w else (err, w))
      in stone_broadcast us coor win who w)"

text \<open>The text of the last error leaves out the name of the user.\<close>

definition ReceivePlayerStone :: "'db handler" where
  "ReceivePlayerStone req s = do {
     (move, sr) \<leftarrow> ReadUint8 (MakeSerializer (Data req) []);
     case move of
       Inl err \<Rightarrow> Some (Some err, s)
     | Inr move \<Rightarrow> do {
         (coor, sr) \<leftarrow> ReadByte sr;
         case coor of
           Inl err \<Rightarrow> Some (Some err, s)
         | Inr coor \<Rightarrow> do {
             idx \<leftarrow> PRoom (Payloads s (Conn req));
             user \<leftarrow> PUser (Payloads s (Conn req));
             let room = Rooms s ! idx;
             let who = WhoseTurn (room_chess room);
             if \<not> IsPlaying room then Some (Some ErrGameNotStart, s)
             else if Some user = BlackPlayer room \<and> who = BLACK then Some (Some (ErrText ''not black's turn''), s)
             else if Some user = WhitePlayer room \<and> who = WHITE then Some (Some (ErrText ''not white's turn''), s)
             else if Some user \<noteq> BlackPlayer room \<and> Some user \<noteq> WhitePlayer room
             then Some (Some (ErrText ''user is not player, can't stone''), s)
             else do {
               (err, ch) \<leftarrow> Chess_Stone (uint move) coor (room_chess room);
               let room = room\<lparr>room_chess := ch\<rparr>;
               let s = set_room idx room s;
               if err \<noteq> None then Some (None, s)
               else do {
                 win \<leftarrow> DidYouWin (room_chess room);
                 Some (None, in_world (stone_broadcast (Users room) coor win who) s)
               }
             }
           }
       }
   }"

text \<open>The two writes of a regret to one user; the connection is closed at the first error.\<close>

fun regret_broadcast :: "user list \<Rightarrow> byte \<Rightarrow> world \<Rightarrow> world option" where
  "regret_broadcast [] color w = Some w"
| "regret_broadcast (user # us) color w =
     (case sendByte (user_conn user) C_PlayerRegret_op color w of
        (Some err, w) \<Rightarrow> regret_broadcast us color (Conn_Close (user_conn user) w)
      | (None, w) \<Rightarrow> do {
          (err, w) \<leftarrow> SendMessage (user_conn user) ServerUsername (lit ''regret'') w;
          regret_broadcast us color (if err \<noteq> None then Conn_Close (user_conn user) w else w)
        })"

definition ReceivePlayerRegret :: "'db handler" where
  "ReceivePlayerRegret req s = do {
     idx \<leftarrow> PRoom (Payloads s (Conn req));
     user \<leftarrow> PUser (Payloads s (Conn req));
     let (err, room) = Room_Regret (Some user) (Rooms s ! idx);
     let s = set_room idx room s;
     case err of
       Some err \<Rightarrow> Some (Some err, s)
     | None \<Rightarrow> do {
         w \<leftarrow> regret_broadcast (Users room) (RegretColor room) (World s);
         Some (None, s\<lparr>World := w\<rparr>)
       }
   }"

fun reply_broadcast :: "user list \<Rightarrow> bool \<Rightarrow> world \<Rightarrow> world option" where
  "reply_broadcast [] agree w = Some w"
| "reply_broadcast (user # us) agree w = do {
     (err, w) \<leftarrow> SendMessage (user_conn user) ServerUsername (lit (if agree then ''agree'' else ''disagree'')) w;
     reply_broadcast us agree (if err \<noteq> None then Conn_Close (user_conn user) w else w)
   }"

definition ReceiveReplyRegret :: "'db handler" where
  "ReceiveReplyRegret req s = do {
     (agree, sr) \<leftarrow> ReadBoolean (MakeSerializer (Data req) []);
     case agree of
       Inl err \<Rightarrow> Some (Some err, s)
     | Inr agree \<Rightarrow> do {
         idx \<leftarrow> PRoom (Payloads s (Conn req));
         user \<leftarrow> PUser (Payloads s (Conn req));
         let (err, room) = Room_ReplyRegret (Some user) agree (Rooms s ! idx);
         let s = set_room idx room s;
         case err of
           Some err \<Rightarrow> Some (Some err, s)
         | None \<Rightarrow>
             (case Opponent (Some user) room of
                (opp, Some err) \<Rightarrow> Some (Some err, s)
              | (opp, None) \<Rightarrow> do {
                  opponent \<leftarrow> opp;
                  let w = snd (sendBoolean (user_conn opponent) C_AgreeRegret_op agree (World s));
                  w \<leftarrow> reply_broadcast (Users room) agree w;
                  Some (None, s\<lparr>World := w\<rparr>)
                })
       }
   }"

fun message_broadcast :: "user list \<Rightarrow> gostring \<Rightarrow> gostring \<Rightarrow> world \<Rightarrow> world option" where
  "message_broadcast [] sender m w = Some w"
| "message_broadcast (user # us) sender m w = do {
     (err, w) \<leftarrow> SendMessage (user_conn user) sender m w;
     message_broadcast us sender m w
   }"

definition ReceiveMessage :: "'db handler" where
  "ReceiveMessage req s = do {
     r \<leftarrow> decode_struct C_Message_fields C_Message_of (Data req);
     case r of
       Inl err \<Rightarrow> Some (Some err, s)
     | Inr m \<Rightarrow> do {
         idx \<leftarrow> PRoom (Payloads s (Conn req));
         sender \<leftarrow> PUser (Payloads s (Conn req));
         w \<leftarrow> message_broadcast (Users (Rooms s ! idx)) (Username sender) (cm_Message m) (World s);
         Some (None, s\<lparr>World := w\<rparr>)
       }
   }"

definition Endpoint_table :: "'db handler list" where
  "Endpoint_table =
     [Empty, Empty, ReceiveUserInfo, Empty, ReceiveReady, ReceivePlayerStone, ReceivePlayerRegret,
      Empty, Empty, Empty, Empty, ReceiveMessage]"

section \<open>Broadcasts touch the network only\<close>

lemma wframe_broadcastMessage: "wframe w (broadcastMessage us i data w)"
proof (induction us arbitrary: w)
  case Nil
  then show ?case by simp
next
  case (Cons u us)
  obtain err w1 where 1: "write_conn (user_conn u) i data w = (err, w1)" by fastforce
  let ?w2 = "if err = None then w1 else Conn_Close (user_conn u) w1"
  have "wframe w w1" by (rule wframe_writeD [OF 1])
  then have "wframe w ?w2" using wframe_trans [OF _ wframe_close] by simp
  moreover have "broadcastMessage (u # us) i data w = broadcastMessage us i data ?w2"
    using 1 by (cases err) simp_all
  ultimately show ?case using wframe_trans [OF _ Cons.IH [of ?w2]] by simp
qed

lemma sendByte_eq: "sendByte c i b w = write_conn c i [b] w"
  by (simp add: sendByte_def WriteByte_def fresh_serializer_def append_raw_def)

lemma wframe_sendByte: "wframe w (snd (sendByte c i b w))"
  by (simp add: sendByte_eq)

lemma wframe_stone_broadcast: "wframe w (stone_broadcast us coor win who w)"
proof (induction us arbitrary: w)
  case Nil
  then show ?case by simp
next
  case (Cons u us)
  let ?w1 = "snd (sendByte (user_conn u) C_Stone_op coor w)"
  let ?w2 = "if win then snd (sendByte (user_conn u) C_GameOver_op who ?w1) else ?w1"
  have "wframe w ?w2" using wframe_sendByte wframe_trans [of w ?w1] by auto
  moreover have "stone_broadcast (u # us) coor win who w = stone_broadcast us coor win who ?w2"
    by (simp add: split_beta)
  ultimately show ?case using Cons.IH [of ?w2] by (metis wframe_trans)
qed

lemmas send_message_returns = send_struct_returns [of S_Message_fields S_Message_vals, OF s_message_msg.typed]

lemma SendMessage_returns: "\<exists>err w'. SendMessage c u m w = Some (err, w') \<and> wframe w w'"
  unfolding SendMessage_def by (rule send_message_returns)

lemma message_broadcast_returns: "\<exists>w'. message_broadcast us u m w = Some w' \<and> wframe w w'"
proof (induction us arbitrary: w)
  case Nil
  then show ?case by simp
next
  case (Cons x us)
  obtain err w1 where "SendMessage (user_conn x) u m w = Some (err, w1)" "wframe w w1"
    using SendMessage_returns by blast
  then show ?case using Cons.IH [of w1] by (auto intro: wframe_trans)
qed

section \<open>Behind the middlewares no handler panics\<close>

text \<open>
  The state that the middlewares hand to an endpoint: the connection has a user and a room.
  An endpoint keeps the rooms well formed, and changes neither payloads nor database.
\<close>

definition settled :: "conn \<Rightarrow> 'db server \<Rightarrow> bool" where
  "settled c s \<longleftrightarrow> rooms_ok s \<and> PUser (Payloads s c) \<noteq> None \<and>
     (\<exists>idx < length (Rooms s). PRoom (Payloads s c) = Some idx)"

definition served :: "'db server \<Rightarrow> 'db server \<Rightarrow> bool" where
  "served s s' \<longleftrightarrow> rooms_ok s' \<and> room_frame s s' \<and> Payloads s' = Payloads s"

lemma settledE:
  assumes "settled c s"
  obtains idx user where "PRoom (Payloads s c) = Some idx" "PUser (Payloads s c) = Some user"
    "idx < length (Rooms s)" "mroom_ok (Rooms s ! idx)" "rooms_ok s"
  using assms rooms_ok_nth by (auto simp: settled_def)

lemma served_refl: "rooms_ok s \<Longrightarrow> served s s"
  by (simp add: served_def)

lemma served_set_room: "rooms_ok s \<Longrightarrow> mroom_ok r \<Longrightarrow> served s (set_room i r s)"
  using rooms_ok_set [of s r i] by (simp add: served_def room_frame_updates)

lemma served_world: "served s s' \<Longrightarrow> wframe (World s') w \<Longrightarrow> served s (s'\<lparr>World := w\<rparr>)"
  by (auto simp: served_def room_frame_def intro: wframe_trans)

lemma served_in_world: "served s s' \<Longrightarrow> wframe (World s') (f (World s')) \<Longrightarrow> served s (in_world f s')"
  unfolding in_world_def by (rule served_world)

lemma served_broadcasts:
  "served s s' \<Longrightarrow> served s (in_world (broadcastMessage us i data) s')"
  "served s s' \<Longrightarrow> served s (in_world (stone_broadcast us coor win who) s')"
  by (simp_all add: served_in_world wframe_broadcastMessage wframe_stone_broadcast)

lemma served_trans [trans]: "served s s' \<Longrightarrow> served s' s'' \<Longrightarrow> served s s''"
  by (auto simp: served_def intro: room_frame_trans)

lemma mroom_ok_ready: "mroom_ok room \<Longrightarrow> mroom_ok (snd (Room_Ready (Some p) room))"
  using Ready_ok [of room p] by (simp add: mroom_ok_def)

lemma mroom_ok_regret: "mroom_ok room \<Longrightarrow> mroom_ok (snd (Room_Regret (Some p) room))"
  using Regret_request_ok [of room p] by (simp add: mroom_ok_def)

lemma mroom_ok_chess: "mroom_ok room \<Longrightarrow> chess_ok ch \<Longrightarrow> mroom_ok (room\<lparr>room_chess := ch\<rparr>)"
  by (simp add: mroom_ok_def room_ok_def)

lemma Empty_returns: "settled c s \<Longrightarrow> \<exists>err s'. Empty req s = Some (err, s') \<and> served s s'"
  by (simp add: Empty_def settled_def served_refl)

lemma ReceiveMessage_returns:
  assumes "settled (Conn req) s"
  shows "\<exists>err s'. ReceiveMessage req s = Some (err, s') \<and> served s s'"
proof -
  obtain idx user where st: "PRoom (Payloads s (Conn req)) = Some idx" "PUser (Payloads s (Conn req)) = Some user"
    "rooms_ok s" by (rule settledE [OF assms])
  obtain r where r: "decode_struct C_Message_fields C_Message_of (Data req) = Some r"
    using c_message_rd.decode_returns by blast
  show ?thesis
  proof (cases r)
    case (Inl err)
    then show ?thesis using r served_refl [OF st(3)] by (simp add: ReceiveMessage_def)
  next
    case (Inr m)
    obtain w where w: "message_broadcast (Users (Rooms s ! idx)) (Username user) (cm_Message m) (World s) = Some w"
      "wframe (World s) w"
      using message_broadcast_returns by blast
    then show ?thesis
      using r Inr st served_world [OF served_refl [OF st(3)] w(2)] by (simp add: ReceiveMessage_def)
  qed
qed

lemma ReceivePlayerRegret_returns:
  assumes "settled (Conn req) s"
  shows "\<exists>err s'. ReceivePlayerRegret req s = Some (err, s') \<and> served s s'"
proof -
  obtain idx user where st: "PRoom (Payloads s (Conn req)) = Some idx" "PUser (Payloads s (Conn req)) = Some user"
    "idx < length (Rooms s)" "mroom_ok (Rooms s ! idx)" "rooms_ok s"
    by (rule settledE [OF assms])
  obtain err room where r: "Room_Regret (Some user) (Rooms s ! idx) = (err, room)" by fastforce
  obtain e where "err = Some e"
    using Room_Regret_def [of "Some user" "Rooms s ! idx"] r by (auto simp: Let_def split: if_splits)
  moreover have "mroom_ok room" using mroom_ok_regret [OF st(4), of user] r by simp
  ultimately show ?thesis using st r served_set_room [OF st(5)] by (simp add: ReceivePlayerRegret_def)
qed

lemma ReceiveReady_returns:
  assumes "settled (Conn req) s"
  shows "\<exists>err s'. ReceiveReady req s = Some (err, s') \<and> served s s'"
proof -
  obtain idx user where st: "PRoom (Payloads s (Conn req)) = Some idx" "PUser (Payloads s (Conn req)) = Some user"
    "idx < length (Rooms s)" "mroom_ok (Rooms s ! idx)" "rooms_ok s"
    by (rule settledE [OF assms])
  obtain color ready err room where r: "Room_Ready (Some user) (Rooms s ! idx) = ((color, ready, err), room)"
    by (metis prod_cases3 surj_pair)
  have room: "mroom_ok room" using mroom_ok_ready [OF st(4), of user] r by simp
  note s1 = served_set_room [OF st(5) room, of idx]
  show ?thesis
  proof (cases "err = None \<and> ready")
    case False
    then show ?thesis
      using st(1,2) r s1 served_broadcasts(1) [OF s1]
      by (cases err) (simp_all add: ReceiveReady_def)
  next
    case True
    have full: "BlackPlayer room \<noteq> None \<and> WhitePlayer room \<noteq> None"
      using Ready_starts [of "Rooms s ! idx" user color err room] st(4) r True by (simp add: mroom_ok_def)
    then obtain black where black: "BlackPlayer room = Some black" by blast
    obtain d where d: "encode_struct IGameStart_fields IGameStart_vals \<lparr>BlackPlayerName = Username black\<rparr> = Some d"
      using encode_returns [of IGameStart_fields IGameStart_vals, OF game_start_msg.typed] by blast
    obtain room' where room': "Room_Start room = Some room'" "room_ok room'"
      using Start_ok [of room] full room by (auto simp: mroom_ok_def)
    then have "mroom_ok room'"
      using room by (auto simp: mroom_ok_def Room_Start_def Let_def split: option.splits)
    then have "served s (set_room idx room' (in_world (broadcastMessage (Users room) C_GameStart_op data) (set_room idx room s)))"
      for data
      using served_broadcasts(1) [OF s1] served_set_room served_trans
      by (metis served_def)
    then show ?thesis
      using st(1,2) r s1 True black d room'(1) by (cases d) (simp_all add: ReceiveReady_def)
  qed
qed

text \<open>The stone handler behind the two bytes that it reads: who is refused, and the move itself.\<close>

definition stone_refused :: "user \<Rightarrow> mroom \<Rightarrow> go_error option" where
  "stone_refused user room =
     (let who = WhoseTurn (room_chess room) in
      if \<not> IsPlaying room then Some ErrGameNotStart
      else if Some user = BlackPlayer room \<and> who = BLACK then Some (ErrText ''not black's turn'')
      else if Some user = WhitePlayer room \<and> who = WHITE then Some (ErrText ''not white's turn'')
      else if Some user \<noteq> BlackPlayer room \<and> Some user \<noteq> WhitePlayer room
      then Some (ErrText ''user is not player, can't stone'')
      else None)"

definition put_stone :: "nat \<Rightarrow> byte \<Rightarrow> byte \<Rightarrow> 'db server \<Rightarrow> (go_error option \<times> 'db server) option" where
  "put_stone idx move coor s = do {
     (err, ch) \<leftarrow> Chess_Stone (uint move) coor (room_chess (Rooms s ! idx));
     let room = (Rooms s ! idx)\<lparr>room_chess := ch\<rparr>;
     let s' = set_room idx room s;
     if err \<noteq> None then Some (None, s')
     else do {
       win \<leftarrow> DidYouWin (room_chess room);
       Some (None, in_world (stone_broadcast (Users room) coor win (WhoseTurn (room_chess (Rooms s ! idx)))) s')
     }
   }"

definition place_stone :: "conn \<Rightarrow> byte \<Rightarrow> byte \<Rightarrow> 'db server \<Rightarrow> (go_error option \<times> 'db server) option" where
  "place_stone c move coor s = do {
     idx \<leftarrow> PRoom (Payloads s c);
     user \<leftarrow> PUser (Payloads s c);
     case stone_refused user (Rooms s ! idx) of
       Some err \<Rightarrow> Some (Some err, s)
     | None \<Rightarrow> put_stone idx move coor s
   }"

lemma stone_refused_case:
  "(case stone_refused user room of Some err \<Rightarrow> Some (Some err, s) | None \<Rightarrow> k) =
    (let who = WhoseTurn (room_chess room) in
     if \<not> IsPlaying room then Some (Some ErrGameNotStart, s)
     else if Some user = BlackPlayer room \<and> who = BLACK then Some (Some (ErrText ''not black's turn''), s)
     else if Some user = WhitePlayer room \<and> who = WHITE then Some (Some (ErrText ''not white's turn''), s)
     else if Some user \<noteq> BlackPlayer room \<and> Some user \<noteq> WhitePlayer room
     then Some (Some (ErrText ''user is not player, can't stone''), s)
     else k)"
  by (simp add: stone_refused_def Let_def)

lemma ReceivePlayerStone_cases:
  "ReceivePlayerStone req s =
    (case Data req of
       move # coor # rest \<Rightarrow> place_stone (Conn req) move coor s
     | _ \<Rightarrow> Some (Some (ErrText ''ReadByte error''), s))"
proof (cases "Data req")
  case Nil
  then show ?thesis by (simp add: ReceivePlayerStone_def ReadUint8_def ReadByte_def MakeSerializer_def)
next
  case (Cons move tail)
  have r1: "ReadUint8 (MakeSerializer (move # tail) []) = Some (Inr move, advance 1 (MakeSerializer (move # tail) []))"
    by (simp add: ReadUint8_def ReadByte_def MakeSerializer_def)
  show ?thesis
  proof (cases tail)
    case Nil
    then show ?thesis using Cons r1
      by (simp add: ReceivePlayerStone_def) (simp add: ReadByte_def MakeSerializer_def)
  next
    case (Cons coor rest)
    obtain sr where "ReadByte (advance 1 (MakeSerializer (move # coor # rest) [])) = Some (Inr coor, sr)"
      by (simp add: ReadByte_def MakeSerializer_def)
    then show ?thesis using \<open>Data req = move # tail\<close> Cons r1
      by (simp add: ReceivePlayerStone_def place_stone_def stone_refused_case put_stone_def Let_def cong: if_cong)
  qed
qed

lemma put_stone_returns:
  assumes "rooms_ok s" "idx < length (Rooms s)"
  shows "\<exists>err s'. put_stone idx move coor s = Some (err, s') \<and> served s s'"
proof -
  let ?room = "Rooms s ! idx"
  note room = rooms_ok_nth [OF assms]
  then have "chess_ok (room_chess ?room)" by (simp add: mroom_ok_def room_ok_def)
  then obtain err ch where ch: "Chess_Stone (uint move) coor (room_chess ?room) = Some (err, ch)" "chess_ok ch"
    using chess_step_ok [of "room_chess ?room" "EvStone (uint move) coor"] by auto
  obtain win where win: "DidYouWin ch = Some win" using DidYouWin_total [OF ch(2)] by blast
  note s1 = served_set_room [OF assms(1) mroom_ok_chess [OF room ch(2)], of idx]
  show ?thesis
    using ch(1) win s1 served_broadcasts(2) [OF s1] by (cases err) (simp_all add: put_stone_def Let_def)
qed

lemma place_stone_returns:
  assumes "settled c s"
  shows "\<exists>err s'. place_stone c move coor s = Some (err, s') \<and> served s s'"
proof -
  obtain idx user where st: "PRoom (Payloads s c) = Some idx" "PUser (Payloads s c) = Some user"
    "idx < length (Rooms s)" "mroom_ok (Rooms s ! idx)" "rooms_ok s"
    by (rule settledE [OF assms])
  show ?thesis
    using st(1,2) served_refl [OF st(5)] put_stone_returns [OF st(5,3)]
    by (cases "stone_refused user (Rooms s ! idx)") (simp_all add: place_stone_def)
qed

lemma ReceivePlayerStone_returns:
  assumes "settled (Conn req) s"
  shows "\<exists>err s'. ReceivePlayerStone req s = Some (err, s') \<and> served s s'"
proof -
  have "rooms_ok s" using assms by (simp add: settled_def)
  note rf = served_refl [OF this]
  show ?thesis
    using place_stone_returns [OF assms] rf by (simp add: ReceivePlayerStone_cases split: list.splits)
qed

text \<open>The only endpoint that can still panic reads a string beyond its payload.\<close>

definition string_fits :: "bytes \<Rightarrow> bool" where
  "string_fits data \<longleftrightarrow> data = [] \<or> unat (hd data) < length data"

lemma ReadString8_start:
  "ReadString8 (MakeSerializer data []) =
    (if \<not> string_fits data then panic
     else if data = [] then Some (Inr [], MakeSerializer data [])
     else Some (Inr (take (unat (hd data)) (tl data)), advance (uint (hd data) + 1) (MakeSerializer data [])))"
proof (cases data)
  case Nil
  then show ?thesis by (simp add: ReadString8_outcome MakeSerializer_def string_fits_def)
next
  case (Cons n rest)
  define k where "k = unat n"
  have k: "uint n = int k" by (simp add: k_def)
  show ?thesis
    unfolding Cons
    by (simp add: ReadString8_outcome MakeSerializer_def string_fits_def Let_def cap_def window_def k
        k_def [symmetric] not_less)
qed

lemma ReceiveUserInfo_returns:
  assumes "settled (Conn req) s" "string_fits (Data req)"
  shows "\<exists>err s'. ReceiveUserInfo req s = Some (err, s') \<and> served s s'"
proof -
  obtain idx where st: "PRoom (Payloads s (Conn req)) = Some idx" "rooms_ok s"
    by (rule settledE [OF assms(1)])
  note rf = served_refl [OF st(2)]
  obtain name sr where n: "ReadString8 (MakeSerializer (Data req) []) = Some (Inr name, sr)"
    using assms(2) by (cases "Data req = []") (simp_all add: ReadString8_start)
  have "served s (snd (write_world (SendUserInfo (Conn req) user) s))" for user
    using served_world [OF rf] by (simp add: write_world_def SendUserInfo_def Let_def split_beta)
  then show ?thesis
    using n st(1) rf by (cases "FindUser name (Rooms s ! idx)") (auto simp: ReceiveUserInfo_def intro: prod.collapse [symmetric])
qed

section \<open>What is broadcast\<close>

lemma broadcast_writable:
  "\<forall>u \<in> set us. writable (user_conn u) w \<Longrightarrow> length data \<le> 65531 \<Longrightarrow>
   net_out (broadcastMessage us i data w) = net_out w @ map (\<lambda>u. (user_conn u, frame i data)) us"
  by (induction us arbitrary: w) (simp_all add: write_conn_writable)

lemma stone_broadcast_writable:
  assumes "\<forall>u \<in> set us. writable (user_conn u) w"
  shows "net_out (stone_broadcast us coor win who w) = net_out w @
    concat (map (\<lambda>u. (user_conn u, frame C_Stone_op [coor]) #
      (if win then [(user_conn u, frame C_GameOver_op [who])] else [])) us)"
proof (cases win)
  case True
  then have yes: "win = True" by simp
  show ?thesis unfolding yes using assms
    by (induction us arbitrary: w) (simp_all add: sendByte_eq write_conn_writable)
next
  case False
  then have no: "win = False" by simp
  show ?thesis unfolding no using assms
    by (induction us arbitrary: w) (simp_all add: sendByte_eq write_conn_writable)
qed

lemma ReceivePlayerStone_placed:
  assumes "Data req = move # coor # rest" "PRoom (Payloads s (Conn req)) = Some idx"
    and "PUser (Payloads s (Conn req)) = Some user" "stone_refused user (Rooms s ! idx) = None"
  shows "ReceivePlayerStone req s = put_stone idx move coor s"
  using assms by (simp add: ReceivePlayerStone_cases place_stone_def)

lemma stone_refused_turn:
  assumes "IsPlaying room" "BlackPlayer room \<noteq> WhitePlayer room" "0 \<le> cursor (room_chess room)"
    and "PlayerColor (Some user) room \<noteq> SPACE"
  shows "stone_refused user room = None \<longleftrightarrow> PlayerColor (Some user) room \<noteq> WhoseTurn (room_chess room)"
  using assms WhoseTurn_stone(1) [OF assms(3)]
  by (auto simp: stone_refused_def PlayerColor_def Let_def split: if_splits)

section \<open>A game in the hall\<close>

text \<open>Two users, foo on connection 3 and bar on connection 4, seated in the room of the hall.\<close>

definition foo :: user where "foo = NewUser 0 (lit ''foo'') 3 0"
definition bar :: user where "bar = NewUser 1 (lit ''bar'') 4 0"

definition table :: "bool \<Rightarrow> byte \<Rightarrow> unit server" where
  "table playing waiting = hall
     \<lparr>Rooms := [(mroom_NewRoom (lit ''hall'') 10)
        \<lparr>BlackPlayer := Some foo, WhitePlayer := Some bar, IsPlaying := playing, ReadyColor := waiting,
         Users := [foo, bar]\<rparr>],
      Payloads := \<lambda>c. \<lparr>PUser = Some (if c = 3 then foo else bar), PRoom = Some 0, Executions = []\<rparr>\<rparr>"

lemma table_users: "foo \<noteq> bar" "bar \<noteq> foo" "Username foo = lit ''foo''" "user_conn foo = 3" "user_conn bar = 4"
  by (simp_all add: foo_def bar_def NewUser_def)

lemma table_sel:
  "Rooms (table p x) = [(mroom_NewRoom (lit ''hall'') 10)
     \<lparr>BlackPlayer := Some foo, WhitePlayer := Some bar, IsPlaying := p, ReadyColor := x, Users := [foo, bar]\<rparr>]"
  "PUser (Payloads (table p x) c) = Some (if c = 3 then foo else bar)"
  "PRoom (Payloads (table p x) c) = Some 0" "World (table p x) = quiet_world"
  by (simp_all add: table_def hall_def empty_server_def)

lemma new_chess: "room_chess (mroom_NewRoom n k) = Chess_Init Chess_zero"
  "RegretColor (mroom_NewRoom n k) = SPACE" "TieColor (mroom_NewRoom n k) = SPACE"
  by (simp_all add: mroom_NewRoom_def game_room.defs game_NewRoom_def Let_def)

lemma table_settled:
  assumes "x = SPACE \<or> x = BLACK \<or> x = WHITE"
  shows "settled c (table p x)"
proof -
  have new: "mroom_ok (mroom_NewRoom (lit ''hall'') 10)" by (rule mroom_NewRoom_ok)
  then have "chess_ok (room_chess (mroom_NewRoom (lit ''hall'') 10))" by (simp add: mroom_ok_def room_ok_def)
  then have "mroom_ok (Rooms (table p x) ! 0)"
    using assms new by (auto simp: table_sel mroom_ok_def room_ok_def seated_def new_chess)
  then show ?thesis by (simp add: settled_def table_sel)
qed

lemma quiet_log: "net_out quiet_world = []"
  by (simp add: quiet_world_def)

lemma quiet_writable: "writable c quiet_world"
  by (simp add: writable_def quiet_world_def)

section \<open>Properties\<close>

text \<open>
  Claim C29. The turn check is the wrong way round: in a running game of two different
  players, a stone of the player whose turn it is is refused and changes nothing, while a
  stone of the other player goes to the board, with the colour of the player whose turn it
  is. (WhoseTurn is 0 at black's turn, and the check refuses black then.)
\<close>

theorem turn_check_is_inverted:
  assumes "settled (Conn req) s" "PRoom (Payloads s (Conn req)) = Some idx" "PUser (Payloads s (Conn req)) = Some user"
    and "IsPlaying (Rooms s ! idx)" "BlackPlayer (Rooms s ! idx) \<noteq> WhitePlayer (Rooms s ! idx)"
    and "PlayerColor (Some user) (Rooms s ! idx) = color" "color \<noteq> SPACE"
    and "Data req = move # coor # rest"
  shows "if color = WhoseTurn (room_chess (Rooms s ! idx))
    then \<exists>e. ReceivePlayerStone req s = Some (Some e, s)
    else \<exists>err ch s'. Chess_Stone (uint move) coor (room_chess (Rooms s ! idx)) = Some (err, ch) \<and>
      ReceivePlayerStone req s = Some (None, s') \<and> Rooms s' = (Rooms s)[idx := (Rooms s ! idx)\<lparr>room_chess := ch\<rparr>]"
proof -
  obtain idx' where "PRoom (Payloads s (Conn req)) = Some idx'" "idx' < length (Rooms s)" "mroom_ok (Rooms s ! idx')"
    by (rule settledE [OF assms(1)])
  then have idx: "idx < length (Rooms s)" and ok: "chess_ok (room_chess (Rooms s ! idx))"
    using assms(2) by (simp_all add: mroom_ok_def room_ok_def)
  have turn: "stone_refused user (Rooms s ! idx) = None \<longleftrightarrow> color \<noteq> WhoseTurn (room_chess (Rooms s ! idx))"
    using stone_refused_turn [OF assms(4,5) chess_ok_cursor(1) [OF ok], of user] assms(6,7) by simp
  show ?thesis
  proof (cases "stone_refused user (Rooms s ! idx)")
    case (Some e)
    then show ?thesis using turn assms(2,3,8) by (simp add: ReceivePlayerStone_cases place_stone_def)
  next
    case None
    obtain err ch where ch: "Chess_Stone (uint move) coor (room_chess (Rooms s ! idx)) = Some (err, ch)" "chess_ok ch"
      using chess_step_ok [OF ok, of "EvStone (uint move) coor"] by auto
    obtain win where "DidYouWin ch = Some win" using DidYouWin_total [OF ch(2)] by blast
    then show ?thesis
      using None turn ch(1) ReceivePlayerStone_placed [OF assms(8,2,3) None]
      by (cases err) (simp_all add: put_stone_def Let_def)
  qed
qed

theorem turn_check_is_inverted_witness:
  "\<exists>e. ReceivePlayerStone \<lparr>Instruction = 5, Data = [0, 112], Conn = 3\<rparr> (table True SPACE) = Some (Some e, table True SPACE)"
proof -
  have "WhoseTurn (room_chess (Rooms (table True SPACE) ! 0)) = BLACK"
    by (simp add: table_sel new_chess Chess_Init_def WhoseTurn_parity BLACK_def)
  then show ?thesis
    using turn_check_is_inverted [OF table_settled [of SPACE "Conn \<lparr>Instruction = 5, Data = [0, 112], Conn = 3\<rparr>" True],
        of 0 foo BLACK 0 112 "[]"]
    by (auto simp: table_sel table_users PlayerColor_def)
qed

text \<open>
  Claim C30. An accepted stone reaches everybody: when the game accepts the stone of the
  player who may play and every user's connection takes writes, the log grows by one stone
  frame per user of the room, in the order of the list, each followed by a game-over frame
  with the colour of the stone when the stone wins. The room keeps the new game, and it
  goes on playing even when the game is won.
\<close>

theorem stone_reaches_everybody:
  assumes "Data req = move # coor # rest" "PRoom (Payloads s (Conn req)) = Some idx" "idx < length (Rooms s)"
    and "PUser (Payloads s (Conn req)) = Some user" "stone_refused user (Rooms s ! idx) = None"
    and "Chess_Stone (uint move) coor (room_chess (Rooms s ! idx)) = Some (None, ch)" "DidYouWin ch = Some win"
    and "\<forall>u \<in> set (Users (Rooms s ! idx)). writable (user_conn u) (World s)"
  shows "\<exists>s'. ReceivePlayerStone req s = Some (None, s') \<and> room_chess (Rooms s' ! idx) = ch \<and> IsPlaying (Rooms s' ! idx) \<and>
    net_out (World s') = net_out (World s) @ concat (map (\<lambda>u. (user_conn u, frame C_Stone_op [coor]) #
      (if win then [(user_conn u, frame C_GameOver_op [WhoseTurn (room_chess (Rooms s ! idx))])] else []))
      (Users (Rooms s ! idx)))"
proof -
  have "IsPlaying (Rooms s ! idx)" using assms(5) by (auto simp: stone_refused_def Let_def split: if_splits)
  then show ?thesis
    using ReceivePlayerStone_placed [OF assms(1,2,4,5)] assms(3,6,7)
      stone_broadcast_writable [OF assms(8), of coor win "WhoseTurn (room_chess (Rooms s ! idx))"]
    by (simp add: put_stone_def Let_def)
qed

theorem stone_reaches_everybody_witness:
  "\<exists>s'. ReceivePlayerStone \<lparr>Instruction = 5, Data = [0, 112], Conn = 4\<rparr> (table True SPACE) = Some (None, s') \<and>
    net_out (World s') = [(3, frame C_Stone_op [112]), (4, frame C_Stone_op [112])]"
proof -
  obtain ch where ch: "Chess_Stone 0 112 (Chess_Init Chess_zero) = Some (None, ch)" "DidYouWin ch = Some False"
  proof -
    have "case Chess_Stone 0 112 (Chess_Init Chess_zero) of Some (None, ch) \<Rightarrow> DidYouWin ch = Some False | _ \<Rightarrow> False"
      by code_simp
    then show ?thesis using that by (auto split: option.splits)
  qed
  have turn: "WhoseTurn (room_chess (Rooms (table True SPACE) ! 0)) = BLACK"
    by (simp add: table_sel new_chess Chess_Init_def WhoseTurn_parity BLACK_def)
  have "stone_refused bar (Rooms (table True SPACE) ! 0) = None"
    using turn by (simp add: stone_refused_def table_sel table_users)
  then show ?thesis
    using stone_reaches_everybody [of "\<lparr>Instruction = 5, Data = [0, 112], Conn = 4\<rparr>" 0 112 "[]" "table True SPACE" 0 bar ch False]
      ch by (auto simp: table_sel new_chess quiet_writable table_users quiet_log)
qed

text \<open>
  Claim C31. The game starts when both are ready: when a player calls ready while the other
  one is waiting, the handler returns without an error, the room plays an empty board with
  nobody waiting, and every user whose connection takes writes is sent the game-start frame
  with the name of the black player.
\<close>

theorem game_starts_when_both_are_ready:
  assumes "settled (Conn req) s" "PRoom (Payloads s (Conn req)) = Some idx" "PUser (Payloads s (Conn req)) = Some user"
    and "BlackPlayer (Rooms s ! idx) = Some black" "WhitePlayer (Rooms s ! idx) = Some white" "black \<noteq> white"
    and "user = black \<and> ReadyColor (Rooms s ! idx) = WHITE \<or> user = white \<and> ReadyColor (Rooms s ! idx) = BLACK"
    and "length (Username black) < 256"
    and "\<forall>u \<in> set (Users (Rooms s ! idx)). writable (user_conn u) (World s)"
  shows "\<exists>s'. ReceiveReady req s = Some (None, s') \<and> IsPlaying (Rooms s' ! idx) \<and>
    standing (room_chess (Rooms s' ! idx)) = [] \<and> ReadyColor (Rooms s' ! idx) = SPACE \<and>
    net_out (World s') = net_out (World s) @
      map (\<lambda>u. (user_conn u, frame C_GameStart_op (enc8 (Username black)))) (Users (Rooms s ! idx))"
proof -
  obtain idx' where "PRoom (Payloads s (Conn req)) = Some idx'" "idx' < length (Rooms s)" "mroom_ok (Rooms s ! idx')"
    by (rule settledE [OF assms(1)])
  then have idx: "idx < length (Rooms s)" and ok: "chess_ok (room_chess (Rooms s ! idx))"
    using assms(2) by (simp_all add: mroom_ok_def room_ok_def)
  let ?room = "(Rooms s ! idx)\<lparr>ReadyColor := SPACE\<rparr>"
  have ready: "\<exists>color. Room_Ready (Some user) (Rooms s ! idx) = ((color, True, None), ?room)"
    using assms(4-7) by (auto simp: Room_Ready_def)
  have enc: "encode_struct IGameStart_fields IGameStart_vals \<lparr>BlackPlayerName = Username black\<rparr> =
      Some (Inr (enc8 (Username black)))"
    using assms(8)
    by (simp add: encode_struct_def IGameStart_fields_def IGameStart_vals_def marshal_field.simps writeString_def
        writeLen_def enc8_def Let_def)
  have start: "Room_Start ?room = Some (?room\<lparr>room_chess := Chess_Init (room_chess (Rooms s ! idx)), IsPlaying := True\<rparr>)"
    using assms(4,5) by (simp add: Room_Start_def Let_def)
  have "length (enc8 (Username black)) \<le> 65531" using assms(8) by (simp add: enc8_def)
  note log = broadcast_writable [OF assms(9) this, of C_GameStart_op]
  show ?thesis
    using ready assms(2-5) enc start log idx by (auto simp: ReceiveReady_def)
qed

theorem game_starts_when_both_are_ready_witness:
  "\<exists>s'. ReceiveReady \<lparr>Instruction = 4, Data = [], Conn = 4\<rparr> (table False BLACK) = Some (None, s') \<and>
    IsPlaying (Rooms s' ! 0) \<and> net_out (World s') =
      [(3, frame C_GameStart_op (enc8 (lit ''foo''))), (4, frame C_GameStart_op (enc8 (lit ''foo'')))]"
  using game_starts_when_both_are_ready [OF table_settled [of BLACK "Conn \<lparr>Instruction = 4, Data = [], Conn = 4\<rparr>" False],
      of 0 bar foo bar]
  by (auto simp: table_sel table_users quiet_writable quiet_log)

end
