(* ===== verification/Udp.thy ===== *)
theory Udp
  imports MdwRoom
begin

text \<open>
  \<open>backend/udp/server.go\<close>, \<open>backend/server/udp.go\<close> and \<open>backend/server/server.go\<close>: the query
  service. One buffer receives every datagram, and a message is a slice of it, handled by a
  goroutine that runs at any later time; so a state is the buffer and the messages not yet
  handled, and an event is a datagram that arrives or a message that is handled. The lemmas
  show the reply to a query and that a query is compared with bytes that it does not contain.
\<close>

section \<open>The service\<close>

definition Version :: gostring where "Version = lit ''0.1''"

definition MaxServerNameLen :: nat where "MaxServerNameLen = 64"

text \<open>The name that \<open>NewServer\<close> keeps.\<close>

definition NewServer :: "gostring \<Rightarrow> gostring" where
  "NewServer name =
     (let maxServerNameLen = (if length name < MaxServerNameLen then length name else MaxServerNameLen)
      in take maxServerNameLen name)"

text \<open>The fields of one room; the errors of the writers are dropped, and with them the field.\<close>

definition write_room :: "mroom \<Rightarrow> serializer \<Rightarrow> serializer" where
  "write_room room sw =
     (let sw = snd (WriteString8 (Name room) sw);
          sw = WriteBoolean (IsPlaying room) sw;
          sw = snd (WriteString8 (GetUsername (BlackPlayer room) []) sw);
          sw = snd (WriteString8 (GetUsername (WhitePlayer room) []) sw);
          sw = snd (WriteUint8_Int (int (length (Users room))) sw)
      in snd (WriteUint8_Int (MaxUsers room) sw))"

text \<open>
  The reply to a message whose data lies in a buffer with \<open>beyond\<close> behind it: an error, or
  the datagram that is sent (an error of the socket is not modelled).
\<close>

definition UdpPipe :: "gostring \<Rightarrow> mroom list \<Rightarrow> bytes \<Rightarrow> bytes \<Rightarrow> (go_error + bytes) option" where
  "UdpPipe name rooms data beyond = do {
     (version, sr) \<leftarrow> ReadString8 (MakeSerializer data beyond);
     case version of
       Inl err \<Rightarrow> Some (Inl err)
     | Inr version \<Rightarrow>
         if version \<noteq> Version then Some (Inl (ErrText ''inconsistent version''))
         else
           let sw = snd (WriteString8 Version fresh_serializer);
               sw = snd (WriteString8 name sw);
               sw = snd (WriteUint8_Int (int (length rooms)) sw);
               sw = fold write_room rooms sw
           in Some (Inr (raw sw))
   }"

section \<open>The receive loop\<close>

type_synonym address = nat

text \<open>\<open>msgs\<close> are the messages of goroutines that have not run yet: a length and an address.\<close>

record udp_state =
  buffer :: bytes
  msgs :: "(nat \<times> address) list"
  replies :: "(address \<times> bytes) list"

definition udp_start :: udp_state where
  "udp_start = \<lparr>buffer = replicate 65536 0, msgs = [], replies = []\<rparr>"

datatype udp_event =
    UReceive bytes address
  | UReadError
  | UHandle nat

text \<open>A datagram that does not fit the buffer is cut by the socket.\<close>

fun udp_step :: "gostring \<Rightarrow> mroom list \<Rightarrow> udp_event \<Rightarrow> udp_state \<Rightarrow> udp_state option" where
  "udp_step name rooms (UReceive d addr) st =
     (let d = take (length (buffer st)) d
      in Some (st\<lparr>buffer := d @ drop (length d) (buffer st), msgs := msgs st @ [(length d, addr)]\<rparr>))"
| "udp_step name rooms UReadError st = Some st"
| "udp_step name rooms (UHandle k) st =
     (if k \<ge> length (msgs st) then Some st
      else let (n, addr) = msgs st ! k; st' = st\<lparr>msgs := take k (msgs st) @ drop (Suc k) (msgs st)\<rparr>
        in (case UdpPipe name rooms (take n (buffer st)) (drop n (buffer st)) of
              None \<Rightarrow> panic
            | Some (Inl err) \<Rightarrow> Some st'
            | Some (Inr reply) \<Rightarrow> Some (st'\<lparr>replies := replies st @ [(addr, reply)]\<rparr>)))"

section \<open>The reply\<close>

definition room_bytes :: "mroom \<Rightarrow> bytes" where
  "room_bytes room =
     enc8 (Name room) @ [if IsPlaying room then 0xFF else 0x00] @ enc8 (GetUsername (BlackPlayer room) []) @
     enc8 (GetUsername (WhitePlayer room) []) @ [of_nat (length (Users room)), word_of_int (MaxUsers room)]"

definition room_fits :: "mroom \<Rightarrow> bool" where
  "room_fits room \<longleftrightarrow> fits8 (Name room) \<and> fits8 (GetUsername (BlackPlayer room) []) \<and>
     fits8 (GetUsername (WhitePlayer room) []) \<and> length (Users room) < 256 \<and> 0 \<le> MaxUsers room \<and> MaxUsers room < 256"

lemma WriteString8_fits: "fits8 str \<Longrightarrow> WriteString8 str s = (None, append_raw (enc8 str) s)"
  using bytes8_codec.write_ok by (simp add: WriteString_eq)

lemma WriteUint8_fits: "0 \<le> v \<Longrightarrow> v < 256 \<Longrightarrow> WriteUint8_Int v s = (None, append_raw [word_of_int v] s)"
  by (simp add: WriteUint8_Int_def WriteByte_def)

lemma write_room_fits: "room_fits room \<Longrightarrow> write_room room sw = append_raw (room_bytes room) sw"
  by (simp add: write_room_def room_fits_def WriteString8_fits WriteUint8_fits boolean_codec.write_ok
      WriteBoolean_def WriteByte_def room_bytes_def Let_def)

lemma raw_fold_write_room:
  "list_all room_fits rooms \<Longrightarrow> raw (fold write_room rooms sw) = raw sw @ concat (map room_bytes rooms)"
  by (induction rooms arbitrary: sw) (simp_all add: write_room_fits)

text \<open>The version that the service compares: bytes of the buffer behind the length byte.\<close>

lemma read_version:
  assumes "length data + length beyond = 65536" "data \<noteq> []"
  shows "\<exists>sr. ReadString8 (MakeSerializer data beyond) =
    Some (Inr (take (unat (hd data)) (tl data @ beyond)), sr)"
proof -
  obtain n rest where data: "data = n # rest" using assms(2) by (cases data) auto
  define k where "k = unat n"
  have k: "uint n = int k" "k < 256" using unsigned_less [of n] by (simp_all add: k_def)
  have "1 + int k \<le> int (length data + length beyond)" using assms(1) k(2) by simp
  then show ?thesis
    unfolding data using k(1)
    by (simp add: ReadString8_outcome MakeSerializer_def cap_def window_def Let_def k_def [symmetric])
qed

lemma UdpPipe_returns:
  assumes "length data + length beyond = 65536"
  shows "\<exists>r. UdpPipe name rooms data beyond = Some r"
proof (cases "data = []")
  case True
  then show ?thesis by (simp add: UdpPipe_def ReadString8_outcome MakeSerializer_def)
next
  case False
  then show ?thesis using read_version [OF assms] by (auto simp: UdpPipe_def Let_def)
qed

section \<open>The loop never panics\<close>

definition udp_ok :: "udp_state \<Rightarrow> bool" where
  "udp_ok st \<longleftrightarrow> length (buffer st) = 65536 \<and> (\<forall>m \<in> set (msgs st). fst m \<le> 65536)"

lemma udp_step_ok: "udp_ok st \<Longrightarrow> \<exists>st'. udp_step name rooms e st = Some st' \<and> udp_ok st'"
proof (cases e)
  case (UReceive d addr)
  moreover assume "udp_ok st"
  ultimately show ?thesis by (auto simp: udp_ok_def Let_def)
next
  case UReadError
  moreover assume "udp_ok st"
  ultimately show ?thesis by simp
next
  case (UHandle k)
  assume ok: "udp_ok st"
  show ?thesis
  proof (cases "k \<ge> length (msgs st)")
    case True
    then show ?thesis using ok UHandle by simp
  next
    case False
    obtain n addr where m: "msgs st ! k = (n, addr)" by fastforce
    then have "n \<le> 65536" using ok nth_mem [of k "msgs st"] False by (force simp: udp_ok_def)
    then have "length (take n (buffer st)) + length (drop n (buffer st)) = 65536"
      using ok by (simp add: udp_ok_def)
    then obtain r where r: "UdpPipe name rooms (take n (buffer st)) (drop n (buffer st)) = Some r"
      using UdpPipe_returns by blast
    have "udp_ok (st\<lparr>msgs := take k (msgs st) @ drop (Suc k) (msgs st)\<rparr>)"
      using ok by (auto simp: udp_ok_def dest: in_set_takeD in_set_dropD)
    then show ?thesis using UHandle False m r by (cases r) (simp_all add: udp_ok_def)
  qed
qed

interpretation udp_machine: invariant_machine
  "\<lambda>st. st = udp_start" "udp_step name rooms" "\<lambda>_. True" udp_ok
  by unfold_locales (simp add: udp_ok_def udp_start_def, rule udp_step_ok)

section \<open>Properties\<close>

text \<open>
  Claim C38. The reply describes the rooms, and the version check reads past the query: in a
  buffer of 65536 bytes a query is answered exactly when the bytes behind its first byte, as
  many as that byte says, spell the version, where bytes that an earlier datagram left in
  the buffer count as well. The answer is the version, the server name cut to 64 bytes, the
  number of rooms and the entry of each room, when every name and number fits its field.
\<close>

theorem UdpPipe_answers:
  assumes "length data + length beyond = 65536" "data \<noteq> []" "length rooms \<le> 200" "list_all room_fits rooms"
  shows "UdpPipe (NewServer name) rooms data beyond = Some
    (if take (unat (hd data)) (tl data @ beyond) = Version
     then Inr (enc8 Version @ enc8 (take 64 name) @ [of_nat (length rooms)] @ concat (map room_bytes rooms))
     else Inl (ErrText ''inconsistent version''))"
proof -
  obtain sr where rd: "ReadString8 (MakeSerializer data beyond) =
      Some (Inr (take (unat (hd data)) (tl data @ beyond)), sr)"
    using read_version [OF assms(1,2)] by blast
  have name: "NewServer name = take 64 name" by (simp add: NewServer_def MaxServerNameLen_def)
  have fits: "fits8 Version" "fits8 (take 64 name)" by (simp_all add: Version_def)
  have count: "WriteUint8_Int (int (length rooms)) s = (None, append_raw [of_nat (length rooms)] s)" for s
    using assms(3) by (simp add: WriteUint8_fits)
  have "raw (fold write_room rooms (append_raw (enc8 Version @ enc8 (take 64 name) @ [of_nat (length rooms)]) fresh_serializer)) =
      enc8 Version @ enc8 (take 64 name) @ [of_nat (length rooms)] @ concat (map room_bytes rooms)"
    using raw_fold_write_room [OF assms(4)] by (simp add: fresh_serializer_def)
  then show ?thesis
    by (simp add: UdpPipe_def rd name count fits WriteString8_fits Let_def)
qed

theorem UdpPipe_answers_witness:
  "UdpPipe (NewServer (lit ''gobang'')) [mroom_NewRoom (lit ''hall'') 10] [3] (lit ''0.1'' @ replicate 65532 0) =
    Some (Inr (enc8 Version @ enc8 (lit ''gobang'') @ [1] @ room_bytes (mroom_NewRoom (lit ''hall'') 10)))"
proof -
  have "room_fits (mroom_NewRoom (lit ''hall'') 10)"
    by (simp add: room_fits_def mroom_NewRoom_def game_room.defs mroom.defs game_NewRoom_def MaxUsers_const_def GetUsername_def)
  moreover have "take 3 (lit ''0.1'' @ replicate 65532 0) = Version" "length Version = 3"
    by (simp_all add: Version_def)
  ultimately show ?thesis
    using UdpPipe_answers [of "[3]" "lit ''0.1'' @ replicate 65532 0" "[mroom_NewRoom (lit ''hall'') 10]" "lit ''gobang''"]
    by simp
qed

end
