(* ===== verification/ServerLoop.thy ===== *)
theory ServerLoop
  imports Endpoints Udp
begin

text \<open>
  \<open>backend/idtcp/server.go\<close> and the wiring of \<open>backend/main.go\<close>: the accept loop, one
  request pipe per connection, and the three chains of middlewares around the endpoint
  table, the accept call and the close call. The goroutines interleave; the pipeline mutex
  makes every run of a chain one step, so an event is a step of one of them: a connection is
  accepted, a pipe reads a frame, a pipe runs the distribute chain, a pipe runs the
  disconnect chain. Every connection comes with the whole stream that its client will send.
  The lemmas show the invariant of the server and that it survives every client that sends
  only complete frames, and exactly which single frames kill it.
\<close>

section \<open>Configuration (main.go)\<close>

record 'db config =
  fatal :: fatal_mdw
  users :: user_mdw
  hall_rooms :: room_mdw
  ext :: "'db external"
  endpoints :: "'db handler list"

text \<open>The interface of a middleware, without the key and the payload that a position in the list fixes.\<close>

record 'db middleware =
  ProcessDistribute :: "'db handler \<Rightarrow> 'db handler"
  ProcessConnect :: "'db connecting \<Rightarrow> 'db connecting"
  ProcessDisconnect :: "'db disconnecting \<Rightarrow> 'db disconnecting"

text \<open>The list that main passes to \<open>NewServer\<close>, and the three lists that \<open>NewServer\<close> makes of it.\<close>

definition middlewareList :: "'db config \<Rightarrow> 'db middleware list" where
  "middlewareList cfg =
     [\<lparr>ProcessDistribute = fatal_ProcessDistribute (fatal cfg),
       ProcessConnect = fatal_ProcessConnect (fatal cfg),
       ProcessDisconnect = fatal_ProcessDisconnect (fatal cfg)\<rparr>,
      \<lparr>ProcessDistribute = user_ProcessDistribute (ext cfg) (users cfg),
       ProcessConnect = user_ProcessConnect,
       ProcessDisconnect = user_ProcessDisconnect\<rparr>,
      \<lparr>ProcessDistribute = room_ProcessDistribute (hall_rooms cfg),
       ProcessConnect = room_ProcessConnect,
       ProcessDisconnect = room_ProcessDisconnect (hall_rooms cfg)\<rparr>]"

definition mdwDistributeList :: "'db config \<Rightarrow> ('db handler \<Rightarrow> 'db handler) list" where
  "mdwDistributeList cfg = map ProcessDistribute (middlewareList cfg)"

definition mdwConnectList :: "'db config \<Rightarrow> ('db connecting \<Rightarrow> 'db connecting) list" where
  "mdwConnectList cfg = map ProcessConnect (middlewareList cfg)"

definition mdwDisconnectList :: "'db config \<Rightarrow> ('db disconnecting \<Rightarrow> 'db disconnecting) list" where
  "mdwDisconnectList cfg = map ProcessDisconnect (middlewareList cfg)"

lemma mdw_lists:
  "mdwDistributeList cfg =
     [fatal_ProcessDistribute (fatal cfg), user_ProcessDistribute (ext cfg) (users cfg),
      room_ProcessDistribute (hall_rooms cfg)]"
  "mdwConnectList cfg = [fatal_ProcessConnect (fatal cfg), user_ProcessConnect, room_ProcessConnect]"
  "mdwDisconnectList cfg =
     [fatal_ProcessDisconnect (fatal cfg), user_ProcessDisconnect, room_ProcessDisconnect (hall_rooms cfg)]"
  by (simp_all add: mdwDistributeList_def mdwConnectList_def mdwDisconnectList_def middlewareList_def)

text \<open>The configuration that main builds, once the user middleware has been made.\<close>

definition main_config :: "'db external \<Rightarrow> user_mdw \<Rightarrow> ConfigRoom list \<Rightarrow> 'db config \<times> mroom list" where
  "main_config e um rooms =
     (let fm = fatal_NewMiddleware S_FatalError_op C_FatalError_op;
          (rm, rs) = room_NewMiddleware S_JoinRoom_op S_LeaveRoom_op C_YouJoinRoom_op C_OtherJoinRoom_op
            C_UserLeaveRoom_op C_GameOver_op rooms
      in (\<lparr>fatal = fm, users = um, hall_rooms = rm, ext = e, endpoints = Endpoint_table\<rparr>, rs))"

section \<open>The handlers at the centre of the chains\<close>

definition distribute :: "'db config \<Rightarrow> 'db handler" where
  "distribute cfg req s =
     (if unat (Instruction req) \<ge> length (endpoints cfg)
      then Some (Some (ErrText ''wrong instruction''), s)
      else (endpoints cfg ! unat (Instruction req)) req s)"

text \<open>The outcome of the accept call is a parameter: the connection and an error or none.\<close>

definition connect :: "conn \<times> go_error option \<Rightarrow> 'db connecting" where
  "connect accepted ctx ps = Some (accepted, ps)"

definition disconnect :: "'db disconnecting" where
  "disconnect c s = Some ((), in_world (Conn_Close c) s)"

section \<open>The loops\<close>

text \<open>
  A request pipe is between two frames, holds a frame it has read, or has left its loop;
  the stream is what the client will still send.
\<close>

datatype pipe =
    Reading "bytes list"
  | Holding u16 bytes "bytes list"
  | Leaving

record 'db loop =
  core :: "'db server"
  pipes :: "conn \<rightharpoonup> pipe"
  accepting :: bool
  next_conn :: conn

text \<open>
  Events: the clock moves, the accept call returns a connection (with a fresh number and a
  stream) or an error, a pipe makes its next step, everything is closed.
\<close>

datatype loop_event =
    ETick u64
  | EAccept "bytes list"
  | EAcceptError go_error
  | EPipe conn
  | ECloseAll

definition NewPayloads :: payload where
  "NewPayloads = \<lparr>PUser = user_NewPayload, PRoom = room_NewPayload, Executions = fatal_NewPayload\<rparr>"

text \<open>One round of the accept loop.\<close>

definition accept_round :: "'db config \<Rightarrow> conn \<times> go_error option \<Rightarrow> bytes list \<Rightarrow> 'db loop \<Rightarrow> 'db loop option" where
  "accept_round cfg accepted stream l = do {
     ((c, err), (payloads, s)) \<leftarrow>
       ConnectContext_Next (mdwConnectList cfg) (connect accepted) () (NewPayloads, core l);
     case err of
       Some e \<Rightarrow> Some (l\<lparr>core := s, accepting := e \<noteq> ErrClosed\<rparr>)
     | None \<Rightarrow>
         let s = set_payload c payloads s;
             s = s\<lparr>connectionSet := c # connectionSet s\<rparr>
         in Some (l\<lparr>core := s, pipes := (pipes l)(c \<mapsto> Reading stream), next_conn := next_conn l + 1\<rparr>)
   }"

text \<open>A step of a request pipe. A read from a connection that the server closed fails.\<close>

definition pipe_step :: "'db config \<Rightarrow> conn \<Rightarrow> 'db loop \<Rightarrow> 'db loop option" where
  "pipe_step cfg c l =
     (case pipes l c of
        None \<Rightarrow> Some l
      | Some (Reading stream) \<Rightarrow>
          if c \<in> set (net_closed (World (core l))) then Some (l\<lparr>pipes := (pipes l)(c \<mapsto> Leaving)\<rparr>)
          else (case Conn_Read stream of
              None \<Rightarrow> panic
            | Some (Inl err, rest) \<Rightarrow> Some (l\<lparr>pipes := (pipes l)(c \<mapsto> Leaving)\<rparr>)
            | Some (Inr (n, instruction, data), rest) \<Rightarrow>
                Some (l\<lparr>pipes := (pipes l)(c \<mapsto> Holding instruction data rest)\<rparr>))
      | Some (Holding instruction data rest) \<Rightarrow> do {
          (err, s) \<leftarrow> DistributeContext_Next (mdwDistributeList cfg) (distribute cfg)
            \<lparr>Instruction = instruction, Data = data, Conn = c\<rparr> (core l);
          Some (l\<lparr>core := s, pipes := (pipes l)(c \<mapsto> (if err = None then Reading rest else Leaving))\<rparr>)
        }
      | Some Leaving \<Rightarrow> do {
          (u, s) \<leftarrow> DisconnectContext_Next (mdwDisconnectList cfg) disconnect c (core l);
          Some (l\<lparr>core := s\<lparr>connectionSet := remove1 c (connectionSet s)\<rparr>, pipes := (pipes l)(c := None)\<rparr>)
        })"

fun loop_step :: "'db config \<Rightarrow> loop_event \<Rightarrow> 'db loop \<Rightarrow> 'db loop option" where
  "loop_step cfg (ETick t) l = Some (l\<lparr>core := in_world (\<lambda>w. w\<lparr>unix_now := t\<rparr>) (core l)\<rparr>)"
| "loop_step cfg (EAccept stream) l =
     (if \<not> accepting l then Some l else accept_round cfg (next_conn l, None) stream l)"
| "loop_step cfg (EAcceptError e) l =
     (if \<not> accepting l then Some l else accept_round cfg (next_conn l, Some e) [] l)"
| "loop_step cfg (EPipe c) l = pipe_step cfg c l"
| "loop_step cfg ECloseAll l =
     Some (l\<lparr>core := in_world (fold Conn_Close (connectionSet (core l))) (core l)\<rparr>)"

definition loop_start :: "'db \<Rightarrow> world \<Rightarrow> mroom list \<Rightarrow> 'db loop" where
  "loop_start db w rooms =
     \<lparr>core = \<lparr>Rooms = rooms, Db = db, next_user = 0, Payloads = \<lambda>_. NewPayloads, World = w, connectionSet = []\<rparr>,
      pipes = Map.empty, accepting = True, next_conn = 0\<rparr>"

section \<open>The invariant of the server\<close>

text \<open>
  A frame is safe when the two handlers that read strings past the end have enough bytes.
\<close>

definition report_fits :: "bytes \<Rightarrow> bool" where
  "report_fits data \<longleftrightarrow> 4 \<le> length data \<and> (4 < length data \<longrightarrow> 5 + unat (data ! 4) \<le> length data)"

definition safe_frame :: "u16 \<Rightarrow> bytes \<Rightarrow> bool" where
  "safe_frame instruction data \<longleftrightarrow>
     (instruction = S_FatalError_op \<longrightarrow> report_fits data) \<and>
     (instruction = S_UserInfo_op \<longrightarrow> string_fits data)"

text \<open>The configuration of main, with a driver that keeps its promises.\<close>

definition config_ok :: "'db config \<Rightarrow> ('db \<Rightarrow> gostring \<rightharpoonup> gostring) \<Rightarrow> bool" where
  "config_ok cfg stored \<longleftrightarrow>
     s_FatalError (fatal cfg) = S_FatalError_op \<and> us_JoinRoom (users cfg) = rs_JoinRoom (hall_rooms cfg) \<and>
     endpoints cfg = Endpoint_table \<and> sql_laws (ext cfg) stored"

text \<open>
  The rooms are well formed, the random source works, the stored hashes can be read, a
  payload names a room that exists, and nothing collects executions.
\<close>

definition core_ok :: "('db \<Rightarrow> gostring \<rightharpoonup> gostring) \<Rightarrow> 'db server \<Rightarrow> bool" where
  "core_ok stored s \<longleftrightarrow>
     rooms_ok s \<and> rand_ok (World s) \<and> hashes_ok (stored (Db s)) \<and>
     (\<forall>c idx. PRoom (Payloads s c) = Some idx \<longrightarrow> idx < length (Rooms s)) \<and>
     (\<forall>c. Executions (Payloads s c) = [])"

text \<open>A connection that may send its next frame has a room as soon as it has a user.\<close>

definition live :: "conn \<Rightarrow> 'db server \<Rightarrow> bool" where
  "live c s \<longleftrightarrow> (PUser (Payloads s c) \<noteq> None \<longrightarrow> PRoom (Payloads s c) \<noteq> None)"

text \<open>What holds during a request of connection \<open>c\<close>, with the connections \<open>A\<close> between frames.\<close>

definition sound ::
  "'db config \<Rightarrow> ('db \<Rightarrow> gostring \<rightharpoonup> gostring) \<Rightarrow> conn set \<Rightarrow> conn \<Rightarrow> 'db server \<Rightarrow> bool" where
  "sound cfg stored A c s \<longleftrightarrow>
     config_ok cfg stored \<and> core_ok stored s \<and> (\<forall>c' \<in> A - {c}. live c' s)"

abbreviation safe :: "request \<Rightarrow> bool" where
  "safe req \<equiv> safe_frame (Instruction req) (Data req)"

lemma sound_world:
  "sound cfg stored A c s \<Longrightarrow> rand_ints w = rand_ints (World s) \<Longrightarrow> sound cfg stored A c (s\<lparr>World := w\<rparr>)"
  by (simp add: sound_def core_ok_def live_def rand_ok_def)

lemma sound_in_world:
  "sound cfg stored A c s \<Longrightarrow> wframe (World s) (f (World s)) \<Longrightarrow> sound cfg stored A c (in_world f s)"
  unfolding in_world_def by (rule sound_world) (simp_all add: wframe_def)

lemma live_world [simp]:
  "live c (s\<lparr>World := w\<rparr>) = live c s" "live c (in_world f s) = live c s"
  by (simp_all add: live_def)

lemma room_frame_rand: "room_frame s s' \<Longrightarrow> rand_ok (World s') = rand_ok (World s)"
  by (simp add: room_frame_def wframe_def rand_ok_def)

lemma sound_served: "sound cfg stored A c s \<Longrightarrow> served s s' \<Longrightarrow> sound cfg stored A c s'"
  using room_frame_rand [of s s'] by (simp add: sound_def core_ok_def live_def served_def room_frame_def)

lemma sound_db:
  "sound cfg stored A c s \<Longrightarrow> db_frame s s' \<Longrightarrow> hashes_ok (stored (Db s')) \<Longrightarrow> sound cfg stored A c s'"
  using rand_ok_frame [of s s'] by (simp add: sound_def core_ok_def live_def db_frame_def)

lemma sound_payload:
  assumes "sound cfg stored A c s" "Executions p = []" "\<And>idx. PRoom p = Some idx \<Longrightarrow> idx < length (Rooms s)"
  shows "sound cfg stored A c (set_payload c p s)"
  using assms by (auto simp: sound_def core_ok_def live_def)

lemma sound_joined:
  assumes "sound cfg stored A c s" "join_outcome c s err s'"
  shows "sound cfg stored A c s'"
  using assms room_frame_rand [of s s']
  by (auto simp: sound_def core_ok_def live_def join_outcome_def room_frame_def split: if_splits)

section \<open>The contracts of the chain\<close>

text \<open>
  The conditions of the chain, from the outside in: before the fatal-error and the user
  middleware, before the room middleware, before and after the endpoints, and after the
  middlewares.
\<close>

definition frame_pre ::
  "'db config \<Rightarrow> ('db \<Rightarrow> gostring \<rightharpoonup> gostring) \<Rightarrow> conn set \<Rightarrow> request \<Rightarrow> 'db server \<Rightarrow> bool" where
  "frame_pre cfg stored A req s \<longleftrightarrow> sound cfg stored A (Conn req) s \<and> safe req \<and> live (Conn req) s"

definition user_pre ::
  "'db config \<Rightarrow> ('db \<Rightarrow> gostring \<rightharpoonup> gostring) \<Rightarrow> conn set \<Rightarrow> request \<Rightarrow> 'db server \<Rightarrow> bool" where
  "user_pre cfg stored A req s \<longleftrightarrow> sound cfg stored A (Conn req) s \<and> safe req \<and>
     PUser (Payloads s (Conn req)) \<noteq> None \<and>
     (Instruction req \<noteq> rs_JoinRoom (hall_rooms cfg) \<longrightarrow> PRoom (Payloads s (Conn req)) \<noteq> None)"

definition room_pre ::
  "'db config \<Rightarrow> ('db \<Rightarrow> gostring \<rightharpoonup> gostring) \<Rightarrow> conn set \<Rightarrow> request \<Rightarrow> 'db server \<Rightarrow> bool" where
  "room_pre cfg stored A req s \<longleftrightarrow> sound cfg stored A (Conn req) s \<and> safe req \<and> settled (Conn req) s"

definition room_post ::
  "'db config \<Rightarrow> ('db \<Rightarrow> gostring \<rightharpoonup> gostring) \<Rightarrow> conn set \<Rightarrow> request \<Rightarrow> go_error option \<Rightarrow> 'db server \<Rightarrow> bool" where
  "room_post cfg stored A req err s \<longleftrightarrow> sound cfg stored A (Conn req) s \<and> settled (Conn req) s"

definition frame_post ::
  "'db config \<Rightarrow> ('db \<Rightarrow> gostring \<rightharpoonup> gostring) \<Rightarrow> conn set \<Rightarrow> request \<Rightarrow> go_error option \<Rightarrow> 'db server \<Rightarrow> bool" where
  "frame_post cfg stored A req err s \<longleftrightarrow>
     sound cfg stored A (Conn req) s \<and> (err = None \<longrightarrow> live (Conn req) s)"

lemmas frame_defs = frame_pre_def user_pre_def room_pre_def room_post_def frame_post_def

lemma settled_live: "settled c s \<Longrightarrow> live c s"
  by (auto simp: settled_def live_def)

lemma settledI:
  "sound cfg stored A c s \<Longrightarrow> PUser (Payloads s c) \<noteq> None \<Longrightarrow> PRoom (Payloads s c) \<noteq> None \<Longrightarrow> settled c s"
  by (auto simp: sound_def core_ok_def settled_def)

lemma settled_served: "settled c s \<Longrightarrow> served s s' \<Longrightarrow> settled c s'"
  by (simp add: settled_def served_def room_frame_def)

text \<open>The endpoint table at the centre.\<close>

lemma endpoint_returns:
  assumes "unat i < length (Endpoint_table :: 'db handler list)" "i = Instruction req"
    and "settled (Conn req) s" "safe req"
  shows "\<exists>err s'. ((Endpoint_table :: 'db handler list) ! unat i) req s = Some (err, s') \<and> served s s'"
proof -
  have "k < 12 \<Longrightarrow> k \<in> {0, 1, 3, 7, 8, 9, 10} \<or> k = 2 \<or> k = 4 \<or> k = 5 \<or> k = 6 \<or> k = 11" for k :: nat
    by (simp, presburger)
  moreover have "unat i < 12" using assms(1) by (simp add: Endpoint_table_def)
  ultimately consider "unat i \<in> {0, 1, 3, 7, 8, 9, 10}" | "unat i = 2" | "unat i = 4" | "unat i = 5" | "unat i = 6" | "unat i = 11"
    by blast
  then show ?thesis
  proof cases
    case 1
    then have "(Endpoint_table :: 'db handler list) ! unat i = Empty" by (auto simp: Endpoint_table_def)
    then show ?thesis using Empty_returns [OF assms(3)] by simp
  next
    case 2
    then have "Instruction req = S_UserInfo_op" using assms(2) by (simp add: S_UserInfo_op_def word_unat_eq_iff)
    then have "string_fits (Data req)" using assms(4) by (simp add: safe_frame_def)
    then show ?thesis using ReceiveUserInfo_returns [OF assms(3)] 2 by (simp add: Endpoint_table_def)
  next
    case 3
    then show ?thesis using ReceiveReady_returns [OF assms(3)] by (simp add: Endpoint_table_def)
  next
    case 4
    then show ?thesis using ReceivePlayerStone_returns [OF assms(3)] by (simp add: Endpoint_table_def)
  next
    case 5
    then show ?thesis using ReceivePlayerRegret_returns [OF assms(3)] by (simp add: Endpoint_table_def)
  next
    case 6
    then show ?thesis using ReceiveMessage_returns [OF assms(3)] by (simp add: Endpoint_table_def)
  qed
qed

lemma distribute_contract: "handles (room_pre cfg stored A) (room_post cfg stored A) (distribute cfg)"
proof (rule handlesI)
  fix req :: request and s :: "'a server"
  assume pre: "room_pre cfg stored A req s"
  then have eps: "endpoints cfg = Endpoint_table" by (simp add: room_pre_def sound_def config_ok_def)
  show "\<exists>err s'. distribute cfg req s = Some (err, s') \<and> room_post cfg stored A req err s'"
  proof (cases "unat (Instruction req) \<ge> length (endpoints cfg)")
    case True
    then show ?thesis using pre by (simp add: distribute_def frame_defs)
  next
    case False
    then obtain err s' where "(Endpoint_table ! unat (Instruction req)) req s = Some (err, s')" "served s s'"
      using endpoint_returns [OF _ refl, of req s] pre eps by (auto simp: room_pre_def)
    then show ?thesis
      using False eps pre sound_served settled_served by (auto simp: distribute_def frame_defs)
  qed
qed

text \<open>The room middleware: it makes the room, and cleans up after the endpoint.\<close>

lemma sound_leave:
  assumes "sound cfg stored A c s"
  shows "\<exists>s'. processUserLeave m c' s = Some s' \<and> sound cfg stored A c s' \<and> Payloads s' = Payloads s"
proof -
  have ok: "rooms_ok s" "\<And>idx. PRoom (Payloads s c') = Some idx \<Longrightarrow> idx < length (Rooms s)"
    using assms by (auto simp: sound_def core_ok_def)
  then show ?thesis
    using processUserLeave_returns [OF ok(1), of c' m] ok(2) sound_served [OF assms] by (auto simp: served_def)
qed

lemma room_contract:
  assumes h: "handles (room_pre cfg stored A) (room_post cfg stored A) h"
  shows "handles (user_pre cfg stored A) (frame_post cfg stored A) (room_ProcessDistribute (hall_rooms cfg) h)"
proof (rule handlesI)
  fix req :: request and s :: "'a server"
  let ?m = "hall_rooms cfg" and ?c = "Conn req"
  assume pre: "user_pre cfg stored A req s"
  then have snd: "sound cfg stored A ?c s" and user: "PUser (Payloads s ?c) \<noteq> None" by (simp_all add: user_pre_def)
  have behind: "\<exists>err s2 s3. h req s1 = Some (err, s2) \<and>
      (if Instruction req = rs_LeaveRoom ?m then processUserLeave ?m ?c s2 else Some s2) = Some s3 \<and>
      frame_post cfg stored A req None s3" if "room_pre cfg stored A req s1" for s1
  proof -
    note s1 = that
    obtain err s2 where s2: "h req s1 = Some (err, s2)" "room_post cfg stored A req err s2"
      by (rule handlesE [OF h s1])
    then have post: "sound cfg stored A ?c s2" "live ?c s2" using settled_live by (auto simp: room_post_def)
    then show ?thesis
      using s2 sound_leave [OF post(1), of ?m ?c] by (auto simp: frame_post_def live_def)
  qed
  show "\<exists>err s'. room_ProcessDistribute ?m h req s = Some (err, s') \<and> frame_post cfg stored A req err s'"
  proof (cases "Instruction req = rs_JoinRoom ?m")
    case False
    then have "room_pre cfg stored A req s"
      using pre settledI [OF snd user] by (simp add: user_pre_def room_pre_def)
    from behind [OF this] show ?thesis
      using False by (auto simp: room_ProcessDistribute_def split: if_splits)
  next
    case True
    have "rooms_ok s" using snd by (simp add: sound_def core_ok_def)
    then obtain err s1 where j: "receiveJoinRoom ?m ?c (Data req) s = Some (err, s1)" "join_outcome ?c s err s1"
      using receiveJoinRoom_returns user by blast
    note s1 = sound_joined [OF snd j(2)]
    show ?thesis
    proof (cases err)
      case (Some e)
      then show ?thesis using j(1) s1 True by (simp add: room_ProcessDistribute_def frame_post_def)
    next
      case None
      then have "settled ?c s1"
        using settledI [OF s1] user j(2) by (auto simp: join_outcome_def)
      then have "room_pre cfg stored A req s1" using s1 pre by (simp add: room_pre_def user_pre_def)
      from behind [OF this] show ?thesis
        using True j(1) None by (auto simp: room_ProcessDistribute_def split: if_splits)
    qed
  qed
qed

text \<open>The user middleware: it makes the user, or does not call on.\<close>

lemma user_contract:
  assumes h: "handles (user_pre cfg stored A) (frame_post cfg stored A) h"
  shows "handles (frame_pre cfg stored A) (frame_post cfg stored A)
    (user_ProcessDistribute (ext cfg) (users cfg) h)"
proof (rule handlesI)
  fix req :: request and s :: "'a server"
  let ?m = "users cfg" and ?c = "Conn req"
  assume pre: "frame_pre cfg stored A req s"
  then have snd: "sound cfg stored A ?c s" and lv: "live ?c s" and sf: "safe req" by (simp_all add: frame_pre_def)
  then have cfg: "us_JoinRoom ?m = rs_JoinRoom (hall_rooms cfg)" "sql_laws (ext cfg) stored"
    and core: "hashes_ok (stored (Db s))" "rand_ok (World s)"
    by (simp_all add: sound_def config_ok_def core_ok_def)
  show "\<exists>err s'. user_ProcessDistribute (ext cfg) ?m h req s = Some (err, s') \<and> frame_post cfg stored A req err s'"
  proof (cases "Instruction req = us_JoinRoom ?m")
    case False
    show ?thesis
    proof (cases "PUser (Payloads s ?c)")
      case None
      then show ?thesis using False snd by (simp add: user_ProcessDistribute_def frame_post_def)
    next
      case (Some u)
      then have "user_pre cfg stored A req s" using snd lv sf by (simp add: user_pre_def live_def)
      then show ?thesis using h False Some
        by (auto elim: handlesE simp: user_ProcessDistribute_def)
    qed
  next
    case True
    obtain r s1 where a: "authenticate (ext cfg) ?m ?c (Data req) s = Some (r, s1)" "db_frame s s1"
      "hashes_ok (stored (Db s1))"
      using authenticate_returns [OF cfg(2) core] by blast
    note s1 = sound_db [OF snd a(2,3)]
    show ?thesis
    proof (cases r)
      case (Inl e)
      have "sound cfg stored A ?c (snd (write_world (sendAuthenticationFailed ?c (uc_YouJoinRoom ?m)) s1))"
        using sound_world [OF s1] by (simp add: write_world_def sendAuthenticationFailed_def Let_def split_beta)
      then show ?thesis using Inl a(1) True by (simp add: user_ProcessDistribute_def frame_post_def)
    next
      case (Inr u)
      let ?s2 = "set_payload ?c (Payloads s1 ?c\<lparr>PUser := Some u\<rparr>) s1"
      have "sound cfg stored A ?c ?s2"
        using s1 by (intro sound_payload) (auto simp: sound_def core_ok_def)
      then have "user_pre cfg stored A req ?s2" using sf True cfg(1) by (simp add: user_pre_def)
      then show ?thesis using h a(1) Inr True
        by (auto elim: handlesE simp: user_ProcessDistribute_def)
    qed
  qed
qed

text \<open>The fatal-error middleware around everything.\<close>

lemma sound_report: "sound cfg stored A c s \<Longrightarrow> sound cfg stored A c (in_world (report_error m err) s)"
  by (rule sound_in_world) (auto intro: report_error_wframe)

lemma no_executions: "in_world (processExecutions m []) s = s"
  by (simp add: in_world_def)

lemma fatal_contract:
  assumes h: "handles (frame_pre cfg stored A) (frame_post cfg stored A) h"
  shows "handles (frame_pre cfg stored A) (frame_post cfg stored A) (fatal_ProcessDistribute (fatal cfg) h)"
proof (rule handlesI)
  fix req :: request and s :: "'a server"
  let ?m = "fatal cfg" and ?c = "Conn req"
  assume pre: "frame_pre cfg stored A req s"
  have "\<exists>w. (if Instruction req = s_FatalError ?m then receiveFatalError ?c (Data req) (World s) else Some (World s)) = Some w \<and>
      rand_ints w = rand_ints (World s)"
    using pre by (auto simp: frame_pre_def safe_frame_def sound_def config_ok_def receiveFatalError_outcome report_fits_def)
  then obtain w where w: "(if Instruction req = s_FatalError ?m then receiveFatalError ?c (Data req) (World s) else Some (World s)) = Some w"
    "rand_ints w = rand_ints (World s)" by blast
  have "frame_pre cfg stored A req (s\<lparr>World := w\<rparr>)"
    using pre w(2) sound_world by (auto simp: frame_pre_def)
  then obtain err s1 where s1: "h req (s\<lparr>World := w\<rparr>) = Some (err, s1)" "frame_post cfg stored A req err s1"
    by (rule handlesE [OF h])
  let ?s2 = "in_world (report_error ?m err) s1"
  have "frame_post cfg stored A req err ?s2"
    using s1(2) sound_report by (auto simp: frame_post_def)
  moreover have "Executions (Payloads ?s2 ?c) = []"
    using s1(2) by (simp add: frame_post_def sound_def core_ok_def)
  ultimately show "\<exists>err s'. fatal_ProcessDistribute ?m h req s = Some (err, s') \<and> frame_post cfg stored A req err s'"
    using w(1) s1(1) by (simp add: fatal_ProcessDistribute_def Let_def no_executions)
qed

interpretation fatal_guard: contract_middleware
  "fatal_ProcessDistribute (fatal cfg)" "frame_pre cfg stored A" "frame_pre cfg stored A"
  "frame_post cfg stored A" "frame_post cfg stored A"
  by unfold_locales (rule fatal_contract)

interpretation user_guard: contract_middleware
  "user_ProcessDistribute (ext cfg) (users cfg)" "user_pre cfg stored A" "frame_pre cfg stored A"
  "frame_post cfg stored A" "frame_post cfg stored A"
  by unfold_locales (rule user_contract)

interpretation room_guard: contract_middleware
  "room_ProcessDistribute (hall_rooms cfg)" "room_pre cfg stored A" "user_pre cfg stored A"
  "room_post cfg stored A" "frame_post cfg stored A"
  by unfold_locales (rule room_contract)

text \<open>The contracts of the three middlewares add up to the contract of the whole chain.\<close>

lemma chain_contract:
  "handles (frame_pre cfg stored A) (frame_post cfg stored A)
    (DistributeContext_Next (mdwDistributeList cfg) (distribute cfg))"
proof -
  have "handles (room_pre cfg stored A) (room_post cfg stored A) (DistributeContext_Next [] (distribute cfg))"
    by (simp add: context_Next distribute_contract)
  from fatal_guard.around_context [OF user_guard.around_context [OF room_guard.around_context [OF this]]]
  show ?thesis by (simp add: mdw_lists)
qed

section \<open>The other two chains\<close>

lemma connect_chain:
  "ConnectContext_Next (mdwConnectList cfg) (connect accepted) () (NewPayloads, s) =
    Some (accepted, NewPayloads, in_world (report_error (fatal cfg) (snd accepted)) s)"
  by (cases accepted)
    (simp add: context_Next mdw_lists fatal_ProcessConnect_def user_ProcessConnect_def
      room_ProcessConnect_def connect_def NewPayloads_def user_NewPayload_def fatal_NewPayload_def no_executions Let_def)

lemma disconnect_chain:
  "DisconnectContext_Next (mdwDisconnectList cfg) disconnect c s =
    map_option (\<lambda>s. ((), in_world (Conn_Close c) s)) (processUserLeave (hall_rooms cfg) c s)"
  by (cases "processUserLeave (hall_rooms cfg) c s")
    (simp_all add: context_Next mdw_lists fatal_ProcessDisconnect_def user_ProcessDisconnect_def
      room_ProcessDisconnect_def disconnect_def)

section \<open>The invariant of the loops\<close>

lemma read_frame_shorter:
  "read_frame bs = Some (Inr m, rest) \<Longrightarrow> length rest < length bs"
  by (auto simp: read_frame_def Let_def split: if_splits)

text \<open>A stream of complete and safe frames, up to its end.\<close>

function polite :: "bytes \<Rightarrow> bool" where
  "polite bs =
     (case read_frame bs of
        None \<Rightarrow> False
      | Some (Inl err, rest) \<Rightarrow> True
      | Some (Inr (n, instruction, data), rest) \<Rightarrow> safe_frame instruction data \<and> polite rest)"
  by pat_completeness auto
termination
  by (relation "measure length") (auto dest: read_frame_shorter)

declare polite.simps [simp del]

definition loop_ok :: "'db config \<Rightarrow> ('db \<Rightarrow> gostring \<rightharpoonup> gostring) \<Rightarrow> 'db loop \<Rightarrow> bool" where
  "loop_ok cfg stored l \<longleftrightarrow>
     config_ok cfg stored \<and> core_ok stored (core l) \<and>
     (\<forall>c stream. pipes l c = Some (Reading stream) \<longrightarrow> live c (core l) \<and> polite (concat stream)) \<and>
     (\<forall>c i d stream. pipes l c = Some (Holding i d stream) \<longrightarrow>
        live c (core l) \<and> safe_frame i d \<and> polite (concat stream))"

text \<open>The connections whose pipes are still in their loop.\<close>

definition active :: "'db loop \<Rightarrow> conn set" where
  "active l = {c. \<exists>p. pipes l c = Some p \<and> p \<noteq> Leaving}"

lemma loop_ok_sound: "loop_ok cfg stored l \<Longrightarrow> sound cfg stored (active l) c (core l)"
  unfolding loop_ok_def sound_def active_def by (auto; metis pipe.exhaust)

text \<open>A step of connection \<open>c\<close> that leaves its pipe in a good state keeps the invariant.\<close>

lemma loop_ok_step:
  assumes ok: "loop_ok cfg stored l" and s: "sound cfg stored (active l) c s"
    and p: "case p of Some (Reading stream) \<Rightarrow> live c s \<and> polite (concat stream)
      | Some (Holding i d stream) \<Rightarrow> live c s \<and> safe_frame i d \<and> polite (concat stream) | _ \<Rightarrow> True"
  shows "loop_ok cfg stored (l\<lparr>core := s, pipes := (pipes l)(c := p)\<rparr>)"
proof -
  have other: "live c' s" if "pipes l c' = Some q" "q \<noteq> Leaving" "c' \<noteq> c" for c' q
    using s that by (auto simp: sound_def active_def)
  show ?thesis
    using ok s p other by (auto simp: loop_ok_def sound_def)
qed

lemma Conn_Read_polite:
  assumes "polite (concat stream)"
  shows "\<exists>r rest. Conn_Read stream = Some (r, rest) \<and>
    (\<forall>n i d. r = Inr (n, i, d) \<longrightarrow> safe_frame i d \<and> polite (concat rest))"
proof -
  have rd: "map_option (\<lambda>(r, rest). (r, concat rest)) (Conn_Read stream) = read_frame (concat stream)"
    by (rule Conn_Read_read_frame)
  show ?thesis
  proof (cases "Conn_Read stream")
    case None
    then have "read_frame (concat stream) = None" using rd by simp
    then show ?thesis using assms by (simp add: polite.simps [of "concat stream"])
  next
    case (Some x)
    obtain r rest where x: "x = (r, rest)" by fastforce
    then have "read_frame (concat stream) = Some (r, concat rest)" using rd Some by simp
    then show ?thesis
      using assms Some x by (auto simp: polite.simps [of "concat stream"])
  qed
qed

lemma active_live: "loop_ok cfg stored l \<Longrightarrow> pipes l c = Some p \<Longrightarrow> p \<noteq> Leaving \<Longrightarrow> live c (core l)"
  by (cases p) (auto simp: loop_ok_def)

lemma pipe_step_ok:
  assumes ok: "loop_ok cfg stored l"
  shows "\<exists>l'. pipe_step cfg c l = Some l' \<and> loop_ok cfg stored l'"
proof (cases "pipes l c")
  case None
  then show ?thesis using ok by (simp add: pipe_step_def)
next
  case (Some p)
  note snd = loop_ok_sound [OF ok, of c]
  have same: "l\<lparr>pipes := q\<rparr> = l\<lparr>core := core l, pipes := q\<rparr>" for q by simp
  show ?thesis
  proof (cases p)
    case (Reading stream)
    then have st: "live c (core l)" "polite (concat stream)" using ok Some by (auto simp: loop_ok_def)
    note leave = loop_ok_step [OF ok snd, of "Some Leaving"]
    obtain r rest where r: "Conn_Read stream = Some (r, rest)"
      "\<And>n i d. r = Inr (n, i, d) \<Longrightarrow> safe_frame i d \<and> polite (concat rest)"
      using Conn_Read_polite [OF st(2)] by blast
    show ?thesis
    proof (cases r)
      case (Inl err)
      then show ?thesis using Some Reading r(1) leave by (simp add: pipe_step_def)
    next
      case (Inr m)
      obtain n i d where m: "m = (n, i, d)" by (metis prod_cases3)
      have "loop_ok cfg stored (l\<lparr>core := core l, pipes := (pipes l)(c \<mapsto> Holding i d rest)\<rparr>)"
        using loop_ok_step [OF ok snd, of "Some (Holding i d rest)"] st(1) r(2) Inr m by simp
      then show ?thesis using Some Reading r(1) Inr m leave by (simp add: pipe_step_def)
    qed
  next
    case (Holding i d stream)
    let ?req = "\<lparr>Instruction = i, Data = d, Conn = c\<rparr>"
    have h: "live c (core l)" "safe_frame i d" "polite (concat stream)"
      using ok Some Holding by (auto simp: loop_ok_def)
    then have "frame_pre cfg stored (active l) ?req (core l)" using snd by (simp add: frame_pre_def)
    then obtain err s where s: "DistributeContext_Next (mdwDistributeList cfg) (distribute cfg) ?req (core l) = Some (err, s)"
      "frame_post cfg stored (active l) ?req err s"
      by (rule handlesE [OF chain_contract])
    then have "loop_ok cfg stored (l\<lparr>core := s, pipes := (pipes l)(c \<mapsto> (if err = None then Reading stream else Leaving))\<rparr>)"
      using loop_ok_step [OF ok, of c s] h(3) by (simp add: frame_post_def)
    then show ?thesis using Some Holding s(1) by (simp add: pipe_step_def)
  next
    case Leaving
    obtain s where s: "processUserLeave (hall_rooms cfg) c (core l) = Some s" "sound cfg stored (active l) c s"
      using sound_leave [OF snd] by blast
    let ?s = "in_world (Conn_Close c) s"
    have "sound cfg stored (active l) c ?s" by (rule sound_in_world [OF s(2)]) simp
    then have "sound cfg stored (active l) c (?s\<lparr>connectionSet := remove1 c (connectionSet ?s)\<rparr>)"
      by (simp add: sound_def core_ok_def live_def)
    then show ?thesis
      using loop_ok_step [OF ok, of c _ None] Some Leaving s(1) by (simp add: pipe_step_def disconnect_chain)
  qed
qed

lemma loop_ok_world:
  "loop_ok cfg stored l \<Longrightarrow> rand_ints w = rand_ints (World (core l)) \<Longrightarrow>
   loop_ok cfg stored (l\<lparr>core := core l\<lparr>World := w\<rparr>\<rparr>)"
  by (simp add: loop_ok_def core_ok_def rand_ok_def)

lemma loop_ok_in_world:
  "loop_ok cfg stored l \<Longrightarrow> rand_ints (f (World (core l))) = rand_ints (World (core l)) \<Longrightarrow>
   loop_ok cfg stored (l\<lparr>core := in_world f (core l)\<rparr>)"
  unfolding in_world_def by (rule loop_ok_world)

lemma wframe_close_all: "wframe w (fold Conn_Close cs w)"
proof (induction cs arbitrary: w)
  case Nil
  then show ?case by simp
next
  case (Cons c cs)
  then show ?case using wframe_trans [OF wframe_close Cons.IH] by simp
qed

lemma accept_round_ok:
  assumes ok: "loop_ok cfg stored l" and st: "err = None \<Longrightarrow> polite (concat stream)"
  shows "\<exists>l'. accept_round cfg (c, err) stream l = Some l' \<and> loop_ok cfg stored l'"
proof (cases err)
  case (Some e)
  let ?s = "in_world (report_error (fatal cfg) (Some e)) (core l)"
  have "loop_ok cfg stored (l\<lparr>core := ?s\<rparr>)"
    using loop_ok_in_world [OF ok] report_error_wframe by (simp add: wframe_def)
  then have "loop_ok cfg stored (l\<lparr>core := ?s, accepting := e \<noteq> ErrClosed\<rparr>)" by (simp add: loop_ok_def)
  then show ?thesis using Some by (simp add: accept_round_def connect_chain)
next
  case None
  let ?s = "in_world (report_error (fatal cfg) None) (core l)"
  let ?s' = "set_payload c NewPayloads ?s\<lparr>connectionSet := c # connectionSet ?s\<rparr>"
  have "sound cfg stored (active l) c ?s"
    using sound_report [OF loop_ok_sound [OF ok]] .
  then have "sound cfg stored (active l) c (set_payload c NewPayloads ?s)"
    by (rule sound_payload) (simp_all add: NewPayloads_def fatal_NewPayload_def room_NewPayload_def)
  then have s': "sound cfg stored (active l) c ?s'" by (simp add: sound_def core_ok_def live_def)
  have "live c ?s'" by (simp add: live_def NewPayloads_def user_NewPayload_def)
  then have "loop_ok cfg stored (l\<lparr>core := ?s', pipes := (pipes l)(c \<mapsto> Reading stream)\<rparr>)"
    using loop_ok_step [OF ok s', of "Some (Reading stream)"] st [OF None] by simp
  then have "loop_ok cfg stored
      (l\<lparr>core := ?s', pipes := (pipes l)(c \<mapsto> Reading stream), next_conn := next_conn l + 1\<rparr>)"
    by (simp add: loop_ok_def)
  then show ?thesis using None by (simp add: accept_round_def connect_chain Let_def)
qed

fun polite_event :: "loop_event \<Rightarrow> bool" where
  "polite_event (EAccept stream) = polite (concat stream)"
| "polite_event e = True"

lemma loop_step_ok:
  assumes ok: "loop_ok cfg stored l" and e: "polite_event e"
  shows "\<exists>l'. loop_step cfg e l = Some l' \<and> loop_ok cfg stored l'"
proof (cases e)
  case (ETick t)
  then show ?thesis using loop_ok_in_world [OF ok, of "\<lambda>w. w\<lparr>unix_now := t\<rparr>"] by simp
next
  case (EAccept stream)
  then show ?thesis using ok e accept_round_ok [OF ok, of None stream "next_conn l"] by auto
next
  case (EAcceptError err)
  then show ?thesis using ok accept_round_ok [OF ok, of "Some err" "[]" "next_conn l"] by auto
next
  case (EPipe c)
  then show ?thesis using pipe_step_ok [OF ok] by simp
next
  case ECloseAll
  then show ?thesis
    using loop_ok_in_world [OF ok, of "fold Conn_Close (connectionSet (core l))"] wframe_close_all
    by (simp add: wframe_def)
qed

definition good_start :: "'db config \<Rightarrow> ('db \<Rightarrow> gostring \<rightharpoonup> gostring) \<Rightarrow> 'db loop \<Rightarrow> bool" where
  "good_start cfg stored l \<longleftrightarrow>
     config_ok cfg stored \<and>
     (\<exists>db w rooms. l = loop_start db w rooms \<and> list_all mroom_ok rooms \<and> rand_ok w \<and> hashes_ok (stored db))"

lemma good_start_ok: "good_start cfg stored l \<Longrightarrow> loop_ok cfg stored l"
  by (auto simp: good_start_def loop_start_def loop_ok_def core_ok_def NewPayloads_def room_NewPayload_def fatal_NewPayload_def)

interpretation server_machine: invariant_machine
  "good_start cfg stored" "loop_step cfg" polite_event "loop_ok cfg stored"
  by unfold_locales (auto intro: good_start_ok loop_step_ok)

section \<open>Every connection ends\<close>

text \<open>
  How many steps a pipe can still make: a frame takes a read and a run of the chain, and
  the end of the loop one more step.
\<close>

fun pipe_fuel :: "pipe option \<Rightarrow> nat" where
  "pipe_fuel None = 0"
| "pipe_fuel (Some Leaving) = 1"
| "pipe_fuel (Some (Reading stream)) = 2 * length (concat stream) + 2"
| "pipe_fuel (Some (Holding i d stream)) = 2 * length (concat stream) + 3"

lemma Conn_Read_shorter:
  assumes "Conn_Read stream = Some (Inr m, rest)"
  shows "length (concat rest) < length (concat stream)"
proof -
  have "read_frame (concat stream) = Some (Inr m, concat rest)"
    using Conn_Read_read_frame [of stream] assms by simp
  then show ?thesis by (rule read_frame_shorter)
qed

lemma pipe_step_fuel:
  assumes "pipe_step cfg c l = Some l'" "pipes l c \<noteq> None"
  shows "pipe_fuel (pipes l' c) < pipe_fuel (pipes l c)"
proof -
  obtain p where p: "pipes l c = Some p" using assms(2) by blast
  show ?thesis
  proof (cases p)
    case (Reading stream)
    then show ?thesis
      using assms(1) p Conn_Read_shorter [of stream]
      by (fastforce simp: pipe_step_def split: if_splits option.splits sum.splits prod.splits)
  qed (use assms(1) p in \<open>auto simp: pipe_step_def bind_eq_Some_conv\<close>)
qed

lemma pipe_step_frame:
  assumes "pipe_step cfg c' l = Some l'"
  shows "next_conn l' = next_conn l \<and> (c \<noteq> c' \<longrightarrow> pipes l' c = pipes l c)"
  using assms
  by (auto simp: pipe_step_def bind_eq_Some_conv split: if_splits option.splits sum.splits prod.splits pipe.splits)

text \<open>Connections get fresh numbers, so the pipe of an accepted connection is its own.\<close>

lemma loop_step_frame:
  assumes "loop_step cfg e l = Some l'" "c < next_conn l" "e \<noteq> EPipe c"
  shows "next_conn l \<le> next_conn l' \<and> pipes l' c = pipes l c"
proof (cases e)
  case (EAccept stream)
  then show ?thesis
    using assms by (auto simp: accept_round_def connect_chain Let_def split: if_splits)
next
  case (EAcceptError err)
  then show ?thesis
    using assms by (auto simp: accept_round_def connect_chain Let_def split: if_splits)
next
  case (EPipe c')
  then show ?thesis using assms pipe_step_frame [of cfg c' l l' c] by auto
qed (use assms in auto)

lemma run_fuel:
  assumes "loop_ok cfg stored l" "c < next_conn l" "list_all polite_event es"
  shows "\<exists>l'. run (loop_step cfg) es l = Some l' \<and> loop_ok cfg stored l' \<and>
    pipe_fuel (pipes l' c) \<le> pipe_fuel (pipes l c) - count_list es (EPipe c)"
  using assms
proof (induction es arbitrary: l)
  case Nil
  then show ?case by simp
next
  case (Cons e es)
  then obtain l1 where l1: "loop_step cfg e l = Some l1" "loop_ok cfg stored l1"
    using loop_step_ok [of cfg stored l e] by auto
  have step: "c < next_conn l1 \<and>
      pipe_fuel (pipes l1 c) \<le> pipe_fuel (pipes l c) - (if e = EPipe c then 1 else 0)"
  proof (cases "e = EPipe c")
    case True
    then have ps: "pipe_step cfg c l = Some l1" using l1(1) by simp
    show ?thesis
    proof (cases "pipes l c = None")
      case True
      then show ?thesis using ps Cons.prems(2) \<open>e = EPipe c\<close> by (auto simp: pipe_step_def)
    next
      case False
      then show ?thesis
        using pipe_step_fuel [OF ps False] pipe_step_frame [OF ps, of c] Cons.prems(2) True by simp
    qed
  next
    case False
    then show ?thesis using loop_step_frame [OF l1(1) Cons.prems(2)] Cons.prems(2) by auto
  qed
  obtain l' where l': "run (loop_step cfg) es l1 = Some l'" "loop_ok cfg stored l'"
    "pipe_fuel (pipes l' c) \<le> pipe_fuel (pipes l1 c) - count_list es (EPipe c)"
    using Cons.IH [OF l1(2)] step Cons.prems(3) by auto
  then show ?case using l1(1) step by (auto split: if_splits)
qed

end
