(* ===== verification/History.thy ===== *)
theory History
  imports ServerLoop
begin

text \<open>
  What every run of the server keeps, whatever its clients send: statements about the runs
  that do not panic, so no client has to be polite. A law of the server is a predicate on its
  state that each elementary change keeps (an endpoint, a login, entering and leaving a
  room, accepting a connection); the locale \<open>server_law\<close> derives once that it holds along
  every run. Its interpretations are the history of the server (passwords, log, rooms), the
  consistency of users and seats, and the users that nobody can remove any more.
\<close>

section \<open>Partial contracts\<close>

text \<open>The postcondition holds if the handler returns.\<close>

definition keeps ::
  "('r \<Rightarrow> 's \<Rightarrow> bool) \<Rightarrow> ('r \<Rightarrow> 'a \<Rightarrow> 's \<Rightarrow> bool) \<Rightarrow> ('r \<Rightarrow> 's \<Rightarrow> ('a \<times> 's) option) \<Rightarrow> bool" where
  "keeps P Q h \<longleftrightarrow> (\<forall>r s a s'. P r s \<longrightarrow> h r s = Some (a, s') \<longrightarrow> Q r a s')"

lemma keepsI: "(\<And>r s a s'. P r s \<Longrightarrow> h r s = Some (a, s') \<Longrightarrow> Q r a s') \<Longrightarrow> keeps P Q h"
  by (simp add: keeps_def)

lemma keepsD: "keeps P Q h \<Longrightarrow> P r s \<Longrightarrow> h r s = Some (a, s') \<Longrightarrow> Q r a s'"
  by (auto simp: keeps_def)

section \<open>What an endpoint touches\<close>

definition people :: "mroom \<Rightarrow> gostring \<times> int \<times> user list \<times> user option \<times> user option" where
  "people room = (Name room, MaxUsers room, Users room, BlackPlayer room, WhitePlayer room)"

definition attended :: "'db server \<Rightarrow> 'db server \<Rightarrow> bool" where
  "attended s s' \<longleftrightarrow>
     Db s' = Db s \<and> next_user s' = next_user s \<and> Payloads s' = Payloads s \<and>
     connectionSet s' = connectionSet s \<and> map people (Rooms s') = map people (Rooms s) \<and>
     wframe (World s) (World s')"

lemma attended_refl [intro, simp]: "attended s s"
  by (simp add: attended_def)

lemma attended_trans [trans]: "attended s s' \<Longrightarrow> attended s' s'' \<Longrightarrow> attended s s''"
  by (auto simp: attended_def intro: wframe_trans)

lemma attended_world: "wframe (World s) w \<Longrightarrow> attended s (s\<lparr>World := w\<rparr>)"
  by (simp add: attended_def)

lemma attended_in_world: "wframe (World s) (f (World s)) \<Longrightarrow> attended s (in_world f s)"
  unfolding in_world_def by (rule attended_world)

lemma attended_write_world:
  "(\<And>w. wframe w (snd (f w))) \<Longrightarrow> write_world f s = (err, s') \<Longrightarrow> attended s s'"
  by (auto simp: write_world_def attended_world split: prod.splits dest: meta_spec [of _ "World s"])

lemma attended_broadcasts:
  "attended s (in_world (broadcastMessage us i data) s)"
  "attended s (in_world (stone_broadcast us coor win who) s)"
  by (simp_all add: attended_in_world wframe_broadcastMessage wframe_stone_broadcast)

lemma people_same: "people room = people (Rooms s ! i) \<Longrightarrow> attended s (set_room i room s)"
  by (cases "i < length (Rooms s)") (auto simp: attended_def map_update list_update_same_conv list_update_beyond)

lemma people_ops:
  "people (snd (Room_Ready p room)) = people room" "people (snd (Room_Regret p room)) = people room"
  "people (room\<lparr>room_chess := ch\<rparr>) = people room"
  "Room_Start room = Some room' \<Longrightarrow> people room' = people room"
  by (auto simp: people_def Room_Ready_def Room_Regret_def Room_Start_def Let_def split: option.splits)


lemma attended_set_room:
  "attended s s' \<Longrightarrow> people room = people (Rooms s' ! i) \<Longrightarrow> attended s (set_room i room s')"
  by (rule attended_trans [OF _ people_same])

lemma Empty_attends: "Empty req s = Some (err, s') \<Longrightarrow> attended s s'"
  by (simp add: Empty_def)

lemma wframe_SendUserInfo: "wframe w (snd (SendUserInfo c u w))"
  by (simp add: SendUserInfo_def Let_def)

lemma ReceiveUserInfo_attends:
  assumes "ReceiveUserInfo req s = Some (err, s')"
  shows "attended s s'"
proof -
  obtain r sr where r: "ReadString8 (MakeSerializer (Data req) []) = Some (r, sr)"
    using assms by (auto simp: ReceiveUserInfo_def bind_eq_Some_conv)
  have wr: "attended s t" if "write_world (SendUserInfo (Conn req) user) s = (e, t)" for user e t
    by (rule attended_write_world [OF wframe_SendUserInfo that])
  show ?thesis
    using assms r wr by (cases r) (auto simp: ReceiveUserInfo_def bind_eq_Some_conv split: option.split_asm)
qed

lemma message_broadcast_wframe: "message_broadcast us u m w = Some w' \<Longrightarrow> wframe w w'"
  using message_broadcast_returns [of us u m w] by simp

lemma ReceiveMessage_attends:
  assumes "ReceiveMessage req s = Some (err, s')"
  shows "attended s s'"
proof -
  obtain r where r: "decode_struct C_Message_fields C_Message_of (Data req) = Some r"
    using c_message_rd.decode_returns by blast
  show ?thesis
    using assms r by (cases r)
      (auto simp: ReceiveMessage_def bind_eq_Some_conv intro: attended_world message_broadcast_wframe)
qed

lemma ReceivePlayerRegret_attends:
  assumes "ReceivePlayerRegret req s = Some (err, s')"
  shows "attended s s'"
proof -
  obtain idx user where p: "PRoom (Payloads s (Conn req)) = Some idx" "PUser (Payloads s (Conn req)) = Some user"
    using assms by (auto simp: ReceivePlayerRegret_def bind_eq_Some_conv)
  obtain e room where r: "Room_Regret (Some user) (Rooms s ! idx) = (e, room)" by fastforce
  then have "e \<noteq> None" by (auto simp: Room_Regret_def Let_def split: if_splits)
  then show ?thesis
    using assms p r people_ops(2) [of "Some user" "Rooms s ! idx"]
    by (auto simp: ReceivePlayerRegret_def intro: people_same)
qed

lemma ReceiveReady_attends:
  assumes "ReceiveReady req s = Some (err, s')"
  shows "attended s s'"
proof -
  obtain idx user where p: "PRoom (Payloads s (Conn req)) = Some idx" "PUser (Payloads s (Conn req)) = Some user"
    using assms by (auto simp: ReceiveReady_def bind_eq_Some_conv)
  obtain color ready e room where r: "Room_Ready (Some user) (Rooms s ! idx) = ((color, ready, e), room)"
    by (metis prod_cases3 surj_pair)
  then have room: "people room = people (Rooms s ! idx)"
    using people_ops(1) [of "Some user" "Rooms s ! idx"] by simp
  note s1 = people_same [OF room]
  note w1 = attended_trans [OF s1 attended_broadcasts(1)]
  have start: "attended s (set_room idx room' (in_world (broadcastMessage us i d) (set_room idx room s)))"
    if "Room_Start room = Some room'" for room' us i d
  proof (cases "idx < length (Rooms s)")
    case True
    then show ?thesis using people_ops(4) [OF that] by (intro attended_set_room [OF w1]) simp
  next
    case False
    then have "set_room idx room' x = x" if "length (Rooms x) = length (Rooms s)" for x :: "'a server"
      using that False by (cases x) (simp add: set_room_def list_update_beyond)
    then show ?thesis using w1 by simp
  qed
  show ?thesis
  proof (cases "e = None \<and> ready")
    case False
    then show ?thesis using assms p r s1 w1 by (cases e) (auto simp: ReceiveReady_def Let_def)
  next
    case True
    then obtain black d where
      "BlackPlayer room = Some black"
      "encode_struct IGameStart_fields IGameStart_vals \<lparr>BlackPlayerName = Username black\<rparr> = Some d"
      using assms p r by (auto simp: ReceiveReady_def Let_def bind_eq_Some_conv)
    then show ?thesis
      using True assms p r s1 start by (cases d) (auto simp: ReceiveReady_def Let_def bind_eq_Some_conv)
  qed
qed

lemma ReceivePlayerStone_attends:
  assumes "ReceivePlayerStone req s = Some (err, s')"
  shows "attended s s'"
proof -
  have put: "attended s s'" if "put_stone idx move coor s = Some (err, s')" for idx move coor
    using that
    by (auto simp: put_stone_def bind_eq_Some_conv Let_def people_ops split: if_splits
        intro: people_same attended_trans [OF people_same attended_broadcasts(2)])
  show ?thesis
    using assms put
    by (auto simp: ReceivePlayerStone_cases place_stone_def bind_eq_Some_conv split: list.splits option.splits)
qed

lemma distribute_attends:
  assumes "distribute cfg req s = Some (err, s')" "endpoints cfg = Endpoint_table"
  shows "attended s s'"
proof (cases "unat (Instruction req) \<ge> length (endpoints cfg)")
  case True
  then show ?thesis using assms(1) by (simp add: distribute_def)
next
  case False
  have "h = Empty \<or> h = ReceiveUserInfo \<or> h = ReceiveReady \<or> h = ReceivePlayerStone \<or>
      h = ReceivePlayerRegret \<or> h = ReceiveMessage" if "h \<in> set Endpoint_table" for h :: "'a handler"
    using that by (auto simp: Endpoint_table_def)
  moreover have "(endpoints cfg ! unat (Instruction req)) req s = Some (err, s')"
    using assms(1) False by (simp add: distribute_def)
  ultimately show ?thesis
    using False assms(2) nth_mem [of "unat (Instruction req)" "endpoints cfg"]
      Empty_attends ReceiveUserInfo_attends ReceiveReady_attends ReceivePlayerStone_attends
      ReceivePlayerRegret_attends ReceiveMessage_attends
    by (metis not_le)
qed

section \<open>What the middlewares do\<close>

lemma send_struct_wframe:
  assumes "send_struct fs to_vals c i m w = Some (err, w')"
  shows "wframe w w'"
proof -
  obtain r where "encode_struct fs to_vals m = Some r" using assms by (auto simp: send_struct_def bind_eq_Some_conv)
  then show ?thesis using assms by (cases r) (auto simp: send_struct_def dest: wframe_writeD)
qed

lemma sendYouJoinRoom_wframe: "sendYouJoinRoom m c b room w = Some (err, w') \<Longrightarrow> wframe w w'"
  by (auto simp: sendYouJoinRoom_def Let_def bind_eq_Some_conv split: if_splits
      dest: wframe_writeD send_struct_wframe)

text \<open>A join request changes nothing, or lets the user into one room, with or without the payload.\<close>

definition admitted :: "conn \<Rightarrow> user \<Rightarrow> nat \<Rightarrow> byte \<Rightarrow> world \<Rightarrow> 'db server \<Rightarrow> 'db server" where
  "admitted c user idx role w s = set_room idx (snd (admit role user (Rooms s ! idx))) s\<lparr>World := w\<rparr>"

lemma receiveJoinRoom_outcome:
  assumes "receiveJoinRoom m c data s = Some (err, s')"
  shows "s' = s \<or> (\<exists>user idx role w. PUser (Payloads s c) = Some user \<and> idx < length (Rooms s) \<and> wframe (World s) w \<and>
    (s' = admitted c user idx role w s \<or>
     s' = set_payload c (Payloads s c\<lparr>PRoom := Some idx\<rparr>) (admitted c user idx role w s)))"
proof -
  have enter: "\<exists>w. wframe (World s) w \<and> (s' = admitted c user idx role w s \<or>
      s' = set_payload c (Payloads s c\<lparr>PRoom := Some idx\<rparr>) (admitted c user idx role w s))"
    if run: "enter m c idx role user s = Some (err, s')" for idx role user
  proof -
    obtain e room where adm: "admit role user (Rooms s ! idx) = (e, room)" by fastforce
    show ?thesis
    proof (cases e)
      case (Some x)
      have "set_room idx room s = set_room idx room s\<lparr>World := World s\<rparr>" by (simp add: set_room_def)
      then show ?thesis using run adm Some by (auto simp: enter_def admitted_def)
    next
      case None
      obtain w1 where w1: "notify_others m user role (Users room) (World s) = Some w1" "wframe (World s) w1"
        using notify_others_returns by blast
      obtain e2 w2 where w2: "sendYouJoinRoom m c True room w1 = Some (e2, w2)"
        using run adm None w1(1) by (auto simp: enter_def bind_eq_Some_conv)
      then have "wframe (World s) w2" using wframe_trans [OF w1(2) sendYouJoinRoom_wframe] by blast
      then show ?thesis
        using run adm None w1(1) w2 by (cases e2) (auto simp: enter_def admitted_def Let_def)
    qed
  qed
  show ?thesis
  proof (cases data rule: decode_JoinRoom_cases)
    case (1 e)
    then show ?thesis using assms by (simp add: receiveJoinRoom_cases)
  next
    case (2 i)
    have "s' = s \<or> (\<exists>user. PUser (Payloads s c) = Some user \<and> unat (RoomID i) < length (Rooms s) \<and>
        enter m c (unat (RoomID i)) (ijr_Role i) user s = Some (err, s'))"
      using assms 2 by (auto simp: receiveJoinRoom_cases not_le split: if_splits option.split_asm)
    then show ?thesis using enter by blast
  qed
qed

lemma processUserLeave_outcome:
  assumes "processUserLeave m c s = Some s'"
  shows "s' = s \<or> (\<exists>user idx w. PUser (Payloads s c) = Some user \<and> PRoom (Payloads s c) = Some idx \<and>
    wframe (World s) w \<and> s' = set_room idx (snd (mroom_leave user (Rooms s ! idx))) (s\<lparr>World := w\<rparr>))"
proof -
  have "wframe (World s) w" if "leave_broadcast m user us (World s) = Some w" for user us w
    using leave_broadcast_returns [of m user us "World s"] that by simp
  then show ?thesis
    using assms by (auto simp: processUserLeave_def bind_eq_Some_conv Let_def split: option.split_asm)
qed

lemma receiveFatalError_wframe: "receiveFatalError c data w = Some w' \<Longrightarrow> wframe w w'"
  by (auto simp: receiveFatalError_outcome split: if_splits)

section \<open>Laws of the server\<close>

text \<open>
  \<open>law\<close> holds between the requests; \<open>fresh\<close> holds for a connection that has just
  authenticated and has not yet entered a room. The laws of a chain are kept by every
  request; the laws of the server also by the events of the loops around the chain.
\<close>

locale chain_law =
  fixes cfg :: "'db config"
    and law :: "'db server \<Rightarrow> bool"
    and fresh :: "conn \<Rightarrow> 'db server \<Rightarrow> bool"
  assumes wired: "law s \<Longrightarrow> endpoints cfg = Endpoint_table \<and> us_JoinRoom (users cfg) = rs_JoinRoom (hall_rooms cfg)"
    and fresh_law: "fresh c s \<Longrightarrow> law s"
    and attending: "law s \<Longrightarrow> attended s s' \<Longrightarrow> law s'"
    and refused: "law s \<Longrightarrow> authenticate (ext cfg) (users cfg) c data s = Some (Inl err, s') \<Longrightarrow> law s'"
    and logged: "law s \<Longrightarrow> authenticate (ext cfg) (users cfg) c data s = Some (Inr user, s') \<Longrightarrow>
      fresh c (set_payload c (Payloads s' c\<lparr>PUser := Some user\<rparr>) s')"
    and admitting: "fresh c s \<Longrightarrow> PUser (Payloads s c) = Some user \<Longrightarrow> idx < length (Rooms s) \<Longrightarrow>
      law (set_room idx (snd (admit role user (Rooms s ! idx))) s)"
    and entered: "law s \<Longrightarrow> idx < length (Rooms s) \<Longrightarrow> law (set_payload c (Payloads s c\<lparr>PRoom := Some idx\<rparr>) s)"
    and leaving: "law s \<Longrightarrow> PUser (Payloads s c) = Some user \<Longrightarrow> PRoom (Payloads s c) = Some idx \<Longrightarrow>
      law (set_room idx (snd (mroom_leave user (Rooms s ! idx))) s)"
begin

lemma world: "law s \<Longrightarrow> wframe (World s) w \<Longrightarrow> law (s\<lparr>World := w\<rparr>)"
  using attending attended_world by blast

lemma in_world: "law s \<Longrightarrow> wframe (World s) (f (World s)) \<Longrightarrow> law (in_world f s)"
  unfolding in_world_def by (rule world)

lemma report_keeps: "law s \<Longrightarrow> law (in_world (report_error m err) s)"
  by (simp add: in_world report_error_wframe)

lemma leave_keeps: "law s \<Longrightarrow> processUserLeave m c s = Some s' \<Longrightarrow> law s'"
  using processUserLeave_outcome [of m c s s'] leaving world [of s] by fastforce

lemma join_keeps:
  assumes "fresh c s" "receiveJoinRoom m c data s = Some (err, s')"
  shows "law s'"
proof -
  have "law (admitted c user idx role w s)"
    if "PUser (Payloads s c) = Some user" "idx < length (Rooms s)" "wframe (World s) w" for user idx role w
    using world [OF admitting [OF assms(1) that(1,2), of role]] that(3) by (simp add: admitted_def)
  moreover have "Payloads (admitted c user idx role w s) = Payloads s"
    "length (Rooms (admitted c user idx role w s)) = length (Rooms s)" for user idx role w
    by (simp_all add: admitted_def)
  ultimately show ?thesis
    using receiveJoinRoom_outcome [OF assms(2)] fresh_law [OF assms(1)] entered by metis
qed

lemma endpoint_keeps: "keeps (\<lambda>_. law) (\<lambda>_ _. law) (distribute cfg)"
  by (rule keepsI) (metis attending distribute_attends wired)

lemma room_keeps:
  assumes h: "keeps (\<lambda>_. law) (\<lambda>_ _. law) h"
  shows "keeps (\<lambda>req s. if Instruction req = rs_JoinRoom (hall_rooms cfg) then fresh (Conn req) s else law s)
    (\<lambda>_ _. law) (room_ProcessDistribute (hall_rooms cfg) h)"
proof (rule keepsI)
  fix req s a s'
  let ?m = "hall_rooms cfg"
  assume pre: "if Instruction req = rs_JoinRoom ?m then fresh (Conn req) s else law s"
    and run: "room_ProcessDistribute ?m h req s = Some (a, s')"
  obtain err s1 where s1: "(if Instruction req = rs_JoinRoom ?m then receiveJoinRoom ?m (Conn req) (Data req) s
      else Some (None, s)) = Some (err, s1)"
    using run by (auto simp: room_ProcessDistribute_def bind_eq_Some_conv)
  have law1: "law s1" using s1 pre join_keeps by (auto split: if_splits)
  show "law s'"
  proof (cases err)
    case (Some e)
    then show ?thesis using run s1 law1 by (auto simp: room_ProcessDistribute_def)
  next
    case None
    then obtain i s2 where s2: "h req s1 = Some (i, s2)"
      "(if Instruction req = rs_LeaveRoom ?m then processUserLeave ?m (Conn req) s2 else Some s2) = Some s'"
      using run s1 by (auto simp: room_ProcessDistribute_def bind_eq_Some_conv)
    then have "law s2" using keepsD [OF h law1] by blast
    then show ?thesis using s2(2) leave_keeps by (auto split: if_splits)
  qed
qed

lemma user_keeps:
  assumes h: "keeps (\<lambda>req s. if Instruction req = rs_JoinRoom (hall_rooms cfg) then fresh (Conn req) s else law s)
    (\<lambda>_ _. law) h"
  shows "keeps (\<lambda>_. law) (\<lambda>_ _. law) (user_ProcessDistribute (ext cfg) (users cfg) h)"
proof (rule keepsI)
  fix req s a s'
  let ?m = "users cfg"
  assume pre: "law s" and run: "user_ProcessDistribute (ext cfg) ?m h req s = Some (a, s')"
  have op: "us_JoinRoom ?m = rs_JoinRoom (hall_rooms cfg)" using wired [OF pre] by simp
  show "law s'"
  proof (cases "Instruction req = us_JoinRoom ?m")
    case False
    then show ?thesis
      using run pre op keepsD [OF h, of req s] by (auto simp: user_ProcessDistribute_def split: option.split_asm)
  next
    case True
    then obtain r s1 where a: "authenticate (ext cfg) ?m (Conn req) (Data req) s = Some (r, s1)"
      using run by (auto simp: user_ProcessDistribute_def bind_eq_Some_conv)
    show ?thesis
    proof (cases r)
      case (Inl err)
      have "law s1" using refused [OF pre] a Inl by blast
      then have "law (snd (write_world (sendAuthenticationFailed (Conn req) (uc_YouJoinRoom ?m)) s1))"
        using world by (simp add: write_world_def sendAuthenticationFailed_def Let_def split_beta)
      then show ?thesis using run True a Inl by (simp add: user_ProcessDistribute_def)
    next
      case (Inr user)
      let ?s2 = "set_payload (Conn req) (Payloads s1 (Conn req)\<lparr>PUser := Some user\<rparr>) s1"
      have "fresh (Conn req) ?s2" using logged [OF pre] a Inr by blast
      moreover have "h req ?s2 = Some (a, s')"
        using run True a Inr by (simp add: user_ProcessDistribute_def)
      ultimately show ?thesis using True op keepsD [OF h, of req ?s2] by simp
    qed
  qed
qed

lemma fatal_keeps:
  assumes h: "keeps (\<lambda>_. law) (\<lambda>_ _. law) h"
  shows "keeps (\<lambda>_. law) (\<lambda>_ _. law) (fatal_ProcessDistribute m h)"
proof (rule keepsI)
  fix req s a s'
  assume pre: "law s" and run: "fatal_ProcessDistribute m h req s = Some (a, s')"
  obtain w where w: "(if Instruction req = s_FatalError m then receiveFatalError (Conn req) (Data req) (World s)
      else Some (World s)) = Some w"
    using run by (auto simp: fatal_ProcessDistribute_def bind_eq_Some_conv)
  then have "law (s\<lparr>World := w\<rparr>)" using world [OF pre] receiveFatalError_wframe by (auto split: if_splits)
  moreover obtain s1 where s1: "h req (s\<lparr>World := w\<rparr>) = Some (a, s1)"
    and s': "s' = (let s = in_world (report_error m a) s1 in
      in_world (processExecutions m (Executions (Payloads s (Conn req)))) s)"
    using run w by (auto simp: fatal_ProcessDistribute_def bind_eq_Some_conv Let_def)
  ultimately have "law s1" using keepsD [OF h] by blast
  then show "law s'" unfolding s' Let_def
    by (simp add: in_world report_keeps processExecutions_wframe)
qed

lemma chain_keeps: "keeps (\<lambda>_. law) (\<lambda>_ _. law) (DistributeContext_Next (mdwDistributeList cfg) (distribute cfg))"
  using fatal_keeps [OF user_keeps [OF room_keeps [OF endpoint_keeps]]]
  by (simp add: context_Next mdw_lists)

end

locale server_law = chain_law +
  assumes payload: "law s \<Longrightarrow> law (set_payload c NewPayloads s)"
    and listed: "law s \<Longrightarrow> law (s\<lparr>connectionSet := cs\<rparr>)"
    and ticking: "law s \<Longrightarrow> law (in_world (\<lambda>w. w\<lparr>unix_now := t\<rparr>) s)"
begin

lemma step_keeps:
  assumes "law (core l)" "loop_step cfg e l = Some l'"
  shows "law (core l')"
proof (cases e)
  case (ETick t)
  then show ?thesis using assms ticking by auto
next
  case (EAccept stream)
  then show ?thesis
    using assms report_keeps [OF assms(1), of "fatal cfg"] payload listed
    by (auto simp: accept_round_def connect_chain Let_def split: if_splits)
next
  case (EAcceptError err)
  then show ?thesis
    using assms report_keeps [OF assms(1), of "fatal cfg"]
    by (auto simp: accept_round_def connect_chain Let_def split: if_splits)
next
  case (EPipe c)
  then have "pipe_step cfg c l = Some l'" using assms(2) by simp
  then consider "core l' = core l"
    | i d err where "DistributeContext_Next (mdwDistributeList cfg) (distribute cfg)
        \<lparr>Instruction = i, Data = d, Conn = c\<rparr> (core l) = Some (err, core l')"
    | s where "processUserLeave (hall_rooms cfg) c (core l) = Some s"
        "core l' = in_world (Conn_Close c) s\<lparr>connectionSet := remove1 c (connectionSet (in_world (Conn_Close c) s))\<rparr>"
    by (auto simp: pipe_step_def disconnect_chain bind_eq_Some_conv
        split: if_splits option.split_asm sum.split_asm prod.split_asm pipe.split_asm)
  then show ?thesis
  proof cases
    case 1
    then show ?thesis using assms(1) by simp
  next
    case 2
    then show ?thesis using keepsD [OF chain_keeps assms(1)] by blast
  next
    case 3
    then have "law s" using leave_keeps [OF assms(1)] by blast
    then show ?thesis using 3(2) listed in_world [of s "Conn_Close c"] by simp
  qed
next
  case ECloseAll
  then show ?thesis using assms in_world [OF assms(1), of "fold Conn_Close (connectionSet (core l))"] wframe_close_all by auto
qed

lemma run_keeps: "law (core l) \<Longrightarrow> run (loop_step cfg) es l = Some l' \<Longrightarrow> law (core l')"
proof (induction es arbitrary: l)
  case Nil
  then show ?case by simp
next
  case (Cons e es)
  then show ?case using step_keeps by (auto split: option.split_asm)
qed

end

section \<open>The history of the server\<close>

lemma authenticate_keeps:
  assumes "sql_laws e stored" "authenticate e m c data s = Some (r, s')"
  shows "db_frame s s'" "stored (Db s) \<subseteq>\<^sub>m stored (Db s')"
proof -
  have "db_frame s s' \<and> stored (Db s) \<subseteq>\<^sub>m stored (Db s')"
  proof (cases data rule: decode_JoinRoom_cases)
    case (1 err)
    then show ?thesis using assms(2) by (simp add: authenticate_malformed)
  next
    case (2 i)
    from authenticate_spec(1,2) [OF assms(1) 2 assms(2)] show ?thesis
      using logged_in_keeps by (metis map_le_refl)
  qed
  then show "db_frame s s'" "stored (Db s) \<subseteq>\<^sub>m stored (Db s')" by blast+
qed

lemma authenticate_user:
  assumes "sql_laws e stored" "authenticate e m c data s = Some (Inr user, s')"
  shows "user_conn user = c" "next_user s \<le> user_id user" "user_id user < next_user s'"
proof -
  obtain i where "decode_JoinRoom data = Some (Inr i)"
    using assms(2) by (cases data rule: decode_JoinRoom_cases) (auto simp: authenticate_malformed)
  from authenticate_spec(3) [OF assms(1) this assms(2) refl]
  show "user_conn user = c" "next_user s \<le> user_id user" "user_id user < next_user s'" by simp_all
qed

text \<open>The name and the limit of a room.\<close>

definition plate :: "mroom \<Rightarrow> gostring \<times> int" where
  "plate room = (Name room, MaxUsers room)"

lemma plate_people: "map people xs = map people ys \<Longrightarrow> map plate xs = map plate ys"
proof -
  assume "map people xs = map people ys"
  moreover have "map plate zs = map (\<lambda>p. (fst p, fst (snd p))) (map people zs)" for zs
    by (simp add: plate_def people_def)
  ultimately show "map plate xs = map plate ys" by (simp only:)
qed

lemma plate_set: "plate room = plate (xs ! i) \<Longrightarrow> map plate (xs[i := room]) = map plate xs"
  by (cases "i < length xs") (metis list_update_id map_update nth_map, simp add: list_update_beyond)

lemma plate_ops: "plate (snd (admit role user room)) = plate room" "plate (snd (mroom_leave user room)) = plate room"
  by (auto simp: plate_def admit_def joinAsPlayer_eq joinAsOnlooker_def mroom_leave_def split_beta)

text \<open>What the server may add to and never takes away.\<close>

definition grown ::
  "'db config \<Rightarrow> ('db \<Rightarrow> gostring \<rightharpoonup> gostring) \<Rightarrow> 'db server \<Rightarrow> 'db server \<Rightarrow> bool" where
  "grown cfg stored s0 s \<longleftrightarrow>
     config_ok cfg stored \<and> stored (Db s0) \<subseteq>\<^sub>m stored (Db s) \<and>
     (\<exists>log. net_out (World s) = net_out (World s0) @ log) \<and>
     set (net_closed (World s0)) \<subseteq> set (net_closed (World s)) \<and>
     map plate (Rooms s) = map plate (Rooms s0)"

lemma grown_world:
  "grown cfg stored s0 s \<Longrightarrow> wframe (World s) (World s') \<Longrightarrow> Db s' = Db s \<Longrightarrow>
   map plate (Rooms s') = map plate (Rooms s) \<Longrightarrow> grown cfg stored s0 s'"
  by (auto simp: grown_def wframe_def)

lemma grown_authenticate:
  assumes "grown cfg stored s0 s" "authenticate (ext cfg) m c data s = Some (r, s')"
  shows "grown cfg stored s0 s'"
proof -
  have "sql_laws (ext cfg) stored" using assms(1) by (simp add: grown_def config_ok_def)
  from authenticate_keeps [OF this assms(2)] show ?thesis
    using assms(1) by (auto simp: grown_def db_frame_def intro: map_le_trans)
qed

interpretation history: server_law cfg "grown cfg stored s0" "\<lambda>_. grown cfg stored s0"
proof unfold_locales
  show "endpoints cfg = Endpoint_table \<and> us_JoinRoom (users cfg) = rs_JoinRoom (hall_rooms cfg)"
    if "grown cfg stored s0 s" for s
    using that by (simp add: grown_def config_ok_def)
  show "grown cfg stored s0 s'" if "grown cfg stored s0 s" "attended s s'" for s s'
    using that grown_world [of cfg stored s0 s s'] plate_people [of "Rooms s'" "Rooms s"]
    by (simp add: attended_def)
  show "grown cfg stored s0 (set_room idx (snd (admit role user (Rooms s ! idx))) s)"
    if "grown cfg stored s0 s" for c s user idx role
    using grown_world [OF that] plate_set plate_ops(1) by auto
  show "grown cfg stored s0 (set_room idx (snd (mroom_leave user (Rooms s ! idx))) s)"
    if "grown cfg stored s0 s" for s c user idx
    using grown_world [OF that] plate_set plate_ops(2) by auto
  show "grown cfg stored s0 (in_world (\<lambda>w. w\<lparr>unix_now := t\<rparr>) s)" if "grown cfg stored s0 s" for s t
    using that by (simp add: grown_def)
  show "grown cfg stored s0 (set_payload c (Payloads s' c\<lparr>PUser := Some user\<rparr>) s')"
    if "grown cfg stored s0 s" "authenticate (ext cfg) (users cfg) c data s = Some (Inr user, s')" for s c data user s'
    using grown_authenticate [OF that] by (simp add: grown_def)
  show "grown cfg stored s0 s'"
    if "grown cfg stored s0 s" "authenticate (ext cfg) (users cfg) c data s = Some (Inl err, s')" for s c data err s'
    using grown_authenticate [OF that] .
qed (simp_all add: grown_def)

section \<open>Users and seats\<close>

definition seats_ok :: "mroom \<Rightarrow> bool" where
  "seats_ok room \<longleftrightarrow>
     distinct (Users room) \<and>
     (\<forall>u. BlackPlayer room = Some u \<or> WhitePlayer room = Some u \<longrightarrow> u \<in> set (Users room)) \<and>
     (BlackPlayer room = WhitePlayer room \<longrightarrow> BlackPlayer room = None)"

lemma seats_people: "people room = people room' \<Longrightarrow> seats_ok room = seats_ok room'"
  by (simp add: seats_ok_def people_def)

lemma admit_seats:
  assumes "seats_ok room" "user \<notin> set (Users room)"
  shows "seats_ok (snd (admit role user room))"
    "set (Users (snd (admit role user room))) \<subseteq> insert user (set (Users room))"
    "set (Users room) \<subseteq> set (Users (snd (admit role user room)))"
  using assms by (auto simp: seats_ok_def admit_def joinAsPlayer_eq joinAsOnlooker_def)

lemma leave_seats:
  assumes "seats_ok room"
  shows "seats_ok (snd (mroom_leave user room))" "set (Users (snd (mroom_leave user room))) \<subseteq> set (Users room)"
proof -
  consider "BlackPlayer room = Some user" | "BlackPlayer room \<noteq> Some user" "WhitePlayer room = Some user"
    | "BlackPlayer room \<noteq> Some user" "WhitePlayer room \<noteq> Some user" by blast
  then have "seats_ok (snd (mroom_leave user room)) \<and> set (Users (snd (mroom_leave user room))) \<subseteq> set (Users room)"
    using assms
    by cases (auto simp: mroom_leave_def Room_Leave_def Let_def seats_ok_def dest: notin_set_remove1)
  then show "seats_ok (snd (mroom_leave user room))"
    "set (Users (snd (mroom_leave user room))) \<subseteq> set (Users room)" by blast+
qed

text \<open>
  Every room has its seats among its users, no user object is in two places, user objects
  are numbered below the next number, and a payload holds a user of its own connection.
\<close>

definition members_ok :: "'db server \<Rightarrow> bool" where
  "members_ok s \<longleftrightarrow>
     (\<forall>i < length (Rooms s). seats_ok (Rooms s ! i)) \<and>
     (\<forall>i < length (Rooms s). \<forall>j < length (Rooms s). i \<noteq> j \<longrightarrow>
        set (Users (Rooms s ! i)) \<inter> set (Users (Rooms s ! j)) = {}) \<and>
     (\<forall>i < length (Rooms s). \<forall>u \<in> set (Users (Rooms s ! i)). user_id u < next_user s) \<and>
     (\<forall>c u. PUser (Payloads s c) = Some u \<longrightarrow> user_id u < next_user s \<and> user_conn u = c)"

definition newcomer :: "conn \<Rightarrow> 'db server \<Rightarrow> bool" where
  "newcomer c s \<longleftrightarrow> members_ok s \<and>
     (\<forall>u. PUser (Payloads s c) = Some u \<longrightarrow> (\<forall>i < length (Rooms s). u \<notin> set (Users (Rooms s ! i))))"

lemma members_okD:
  assumes "members_ok s"
  shows "i < length (Rooms s) \<Longrightarrow> seats_ok (Rooms s ! i)"
    "i < length (Rooms s) \<Longrightarrow> j < length (Rooms s) \<Longrightarrow> u \<in> set (Users (Rooms s ! i)) \<Longrightarrow>
      u \<in> set (Users (Rooms s ! j)) \<Longrightarrow> i = j"
    "i < length (Rooms s) \<Longrightarrow> u \<in> set (Users (Rooms s ! i)) \<Longrightarrow> user_id u < next_user s"
    "PUser (Payloads s c) = Some u \<Longrightarrow> user_id u < next_user s \<and> user_conn u = c"
  using assms unfolding members_ok_def by (blast, blast, blast, blast)

lemma people_nth:
  assumes "map people xs = map people ys"
  shows "length xs = length ys" "i < length ys \<Longrightarrow> people (xs ! i) = people (ys ! i)"
  using assms by (metis length_map) (metis assms length_map nth_map)

lemma attended_people:
  assumes "attended s s'"
  shows "length (Rooms s') = length (Rooms s)" "i < length (Rooms s) \<Longrightarrow> people (Rooms s' ! i) = people (Rooms s ! i)"
proof -
  have "map people (Rooms s') = map people (Rooms s)" using assms by (simp only: attended_def)
  from people_nth [OF this] show "length (Rooms s') = length (Rooms s)"
    "i < length (Rooms s) \<Longrightarrow> people (Rooms s' ! i) = people (Rooms s ! i)" by blast+
qed

lemma people_users: "people room = people room' \<Longrightarrow> Users room = Users room'"
  by (simp add: people_def)

lemma members_attended: "members_ok s \<Longrightarrow> attended s s' \<Longrightarrow> members_ok s'"
proof -
  assume ok: "members_ok s" and att: "attended s s'"
  have len: "length (Rooms s') = length (Rooms s)" and same: "i < length (Rooms s) \<Longrightarrow> people (Rooms s' ! i) = people (Rooms s ! i)" for i
    using attended_people [OF att] by blast+
  have "i < length (Rooms s) \<Longrightarrow> seats_ok (Rooms s' ! i) = seats_ok (Rooms s ! i)"
    "i < length (Rooms s) \<Longrightarrow> Users (Rooms s' ! i) = Users (Rooms s ! i)" for i
    using seats_people people_users same by blast+
  then show ?thesis using ok att by (simp add: members_ok_def attended_def len)
qed

text \<open>One room changes, and its new users are users of no other room.\<close>

lemma members_room:
  assumes "members_ok s" "idx < length (Rooms s) \<Longrightarrow> seats_ok room"
    and "\<And>u. idx < length (Rooms s) \<Longrightarrow> u \<in> set (Users room) \<Longrightarrow> u \<in> set (Users (Rooms s ! idx)) \<or>
      user_id u < next_user s \<and> (\<forall>i < length (Rooms s). u \<notin> set (Users (Rooms s ! i)))"
  shows "members_ok (set_room idx room s)"
proof (cases "idx < length (Rooms s)")
  case False
  then have "set_room idx room s = s" by (cases s) (simp add: set_room_def list_update_beyond)
  then show ?thesis using assms(1) by simp
next
  case True
  note old = members_okD [OF assms(1)]
  have new: "user_id u < next_user s" "j < length (Rooms s) \<Longrightarrow> u \<in> set (Users (Rooms s ! j)) \<Longrightarrow> j = idx"
    if "u \<in> set (Users room)" for u j
    using assms(3) [OF True that] old(2,3) [OF True] by blast+
  have at: "(Rooms s)[idx := room] ! i = (if i = idx then room else Rooms s ! i)" for i
    using True by (simp add: nth_list_update)
  have apart: "set (Users ((Rooms s)[idx := room] ! i)) \<inter> set (Users ((Rooms s)[idx := room] ! j)) = {}"
    if "i < length (Rooms s)" "j < length (Rooms s)" "i \<noteq> j" for i j
    using that new(2) old(2) unfolding at by (auto split: if_splits)
  have ids: "user_id u < next_user s"
    if "i < length (Rooms s)" "u \<in> set (Users ((Rooms s)[idx := room] ! i))" for i u
    using that new(1) old(3) unfolding at by (auto split: if_splits)
  have seats: "seats_ok ((Rooms s)[idx := room] ! i)" if "i < length (Rooms s)" for i
    using that assms(2) [OF True] old(1) unfolding at by simp
  show ?thesis
    unfolding members_ok_def set_room_simps length_list_update using apart ids seats old(4) by blast
qed

lemma members_admit:
  assumes "newcomer c s" "PUser (Payloads s c) = Some user"
  shows "members_ok (set_room idx (snd (admit role user (Rooms s ! idx))) s)"
proof (rule members_room)
  show "members_ok s" using assms(1) by (simp add: newcomer_def)
  then have "user_id user < next_user s" using assms(2) by (simp add: members_ok_def)
  moreover have out: "\<forall>i < length (Rooms s). user \<notin> set (Users (Rooms s ! i))"
    using assms by (simp add: newcomer_def)
  moreover assume "idx < length (Rooms s)"
  moreover from this have ok: "seats_ok (Rooms s ! idx)" using assms(1) by (simp add: newcomer_def members_ok_def)
  ultimately show "seats_ok (snd (admit role user (Rooms s ! idx)))"
    and "\<And>u. u \<in> set (Users (snd (admit role user (Rooms s ! idx)))) \<Longrightarrow> u \<in> set (Users (Rooms s ! idx)) \<or>
      user_id u < next_user s \<and> (\<forall>i < length (Rooms s). u \<notin> set (Users (Rooms s ! i)))"
    using admit_seats [OF ok, of user role] by auto
qed

lemma members_leave:
  assumes "members_ok s"
  shows "members_ok (set_room idx (snd (mroom_leave user (Rooms s ! idx))) s)"
proof (rule members_room [OF assms])
  assume "idx < length (Rooms s)"
  then have ok: "seats_ok (Rooms s ! idx)" using assms by (simp add: members_ok_def)
  show "seats_ok (snd (mroom_leave user (Rooms s ! idx)))"
    and "\<And>u. u \<in> set (Users (snd (mroom_leave user (Rooms s ! idx)))) \<Longrightarrow> u \<in> set (Users (Rooms s ! idx)) \<or>
      user_id u < next_user s \<and> (\<forall>i < length (Rooms s). u \<notin> set (Users (Rooms s ! i)))"
    using leave_seats [OF ok, of user] by auto
qed

lemma newcomer_login:
  assumes ok: "members_ok s" and fr: "db_frame s s'"
    and user: "user_conn user = c" "next_user s \<le> user_id user" "user_id user < next_user s'"
  shows "newcomer c (set_payload c (p\<lparr>PUser := Some user\<rparr>) s')"
proof -
  have fr': "Rooms s' = Rooms s" "Payloads s' = Payloads s" "next_user s \<le> next_user s'"
    using fr by (simp_all add: db_frame_def)
  have "members_ok (set_payload c (p\<lparr>PUser := Some user\<rparr>) s')"
    using ok user(1,3) fr' by (fastforce simp: members_ok_def)
  moreover have "user \<notin> set (Users (Rooms s ! i))" if "i < length (Rooms s)" for i
    using members_okD(3) [OF ok that] user(2) by fastforce
  ultimately show ?thesis by (simp add: newcomer_def fr')
qed

lemma members_db_frame: "members_ok s \<Longrightarrow> db_frame s s' \<Longrightarrow> members_ok s'"
  by (fastforce simp: members_ok_def db_frame_def)

interpretation membership: server_law cfg
  "\<lambda>s. config_ok cfg stored \<and> members_ok s" "\<lambda>c s. config_ok cfg stored \<and> newcomer c s"
proof unfold_locales
  show "config_ok cfg stored \<and> members_ok s'" if "config_ok cfg stored \<and> members_ok s" "attended s s'" for s s'
    using that members_attended by blast
  show "config_ok cfg stored \<and> members_ok s'"
    if "config_ok cfg stored \<and> members_ok s" "authenticate (ext cfg) (users cfg) c data s = Some (Inl err, s')" for s c data err s'
    using that authenticate_keeps(1) members_db_frame unfolding config_ok_def by blast
  show "config_ok cfg stored \<and> newcomer c (set_payload c (Payloads s' c\<lparr>PUser := Some user\<rparr>) s')"
    if "config_ok cfg stored \<and> members_ok s" "authenticate (ext cfg) (users cfg) c data s = Some (Inr user, s')" for s c data user s'
  proof -
    have laws: "sql_laws (ext cfg) stored" using that(1) by (simp add: config_ok_def)
    show ?thesis
      using that(1) newcomer_login [OF _ authenticate_keeps(1) [OF laws that(2)] authenticate_user [OF laws that(2)]]
      by blast
  qed
  show "config_ok cfg stored \<and> members_ok (set_room idx (snd (admit role user (Rooms s ! idx))) s)"
    if "config_ok cfg stored \<and> newcomer c s" "PUser (Payloads s c) = Some user" for c s user idx role
    using that members_admit by blast
  show "config_ok cfg stored \<and> members_ok (set_room idx (snd (mroom_leave user (Rooms s ! idx))) s)"
    if "config_ok cfg stored \<and> members_ok s" for s c user idx
    using that members_leave by blast
qed (auto simp: config_ok_def newcomer_def members_ok_def NewPayloads_def user_NewPayload_def)

section \<open>Abandoned users\<close>

text \<open>
  A user object that no payload holds, in the list of users of a room and perhaps on one or
  both of its seats.
\<close>

definition abandoned :: "user \<Rightarrow> nat \<Rightarrow> bool \<Rightarrow> bool \<Rightarrow> 'db server \<Rightarrow> bool" where
  "abandoned u idx black white s \<longleftrightarrow>
     idx < length (Rooms s) \<and> u \<in> set (Users (Rooms s ! idx)) \<and> user_id u < next_user s \<and>
     (\<forall>c. PUser (Payloads s c) \<noteq> Some u) \<and>
     (black \<longrightarrow> BlackPlayer (Rooms s ! idx) = Some u) \<and> (white \<longrightarrow> WhitePlayer (Rooms s ! idx) = Some u)"

lemma abandoned_room:
  assumes "abandoned u idx black white s"
    and "i = idx \<Longrightarrow> u \<in> set (Users room) \<and> (BlackPlayer (Rooms s ! idx) = Some u \<longrightarrow> BlackPlayer room = Some u) \<and>
      (WhitePlayer (Rooms s ! idx) = Some u \<longrightarrow> WhitePlayer room = Some u)"
  shows "abandoned u idx black white (set_room i room s)"
  using assms by (cases "i = idx") (auto simp: abandoned_def)

lemma abandoned_attended:
  assumes "abandoned u idx black white s" "attended s s'"
  shows "abandoned u idx black white s'"
proof -
  have "length (Rooms s') = length (Rooms s)" "people (Rooms s' ! idx) = people (Rooms s ! idx)"
    using assms(1) attended_people [OF assms(2)] by (auto simp: abandoned_def)
  then show ?thesis using assms by (simp add: abandoned_def attended_def people_def)
qed

lemma abandoned_login:
  assumes "abandoned u idx black white s" "db_frame s s'" "next_user s \<le> user_id user"
  shows "abandoned u idx black white (set_payload c (p\<lparr>PUser := Some user\<rparr>) s')"
  using assms by (auto simp: abandoned_def db_frame_def)

lemma abandoned_db_frame: "abandoned u idx black white s \<Longrightarrow> db_frame s s' \<Longrightarrow> abandoned u idx black white s'"
  by (auto simp: abandoned_def db_frame_def)

lemma abandoned_admit:
  "abandoned u idx black white s \<Longrightarrow> abandoned u idx black white (set_room i (snd (admit role user (Rooms s ! i))) s)"
  by (rule abandoned_room) (auto simp: abandoned_def admit_def joinAsPlayer_eq joinAsOnlooker_def)

lemma abandoned_leave:
  assumes "abandoned u idx black white s" "PUser (Payloads s c) = Some user"
  shows "abandoned u idx black white (set_room i (snd (mroom_leave user (Rooms s ! i))) s)"
proof (rule abandoned_room [OF assms(1)])
  have "user \<noteq> u" "u \<in> set (Users (Rooms s ! idx))" using assms by (auto simp: abandoned_def)
  moreover assume "i = idx"
  ultimately show "u \<in> set (Users (snd (mroom_leave user (Rooms s ! i)))) \<and>
      (BlackPlayer (Rooms s ! idx) = Some u \<longrightarrow> BlackPlayer (snd (mroom_leave user (Rooms s ! i))) = Some u) \<and>
      (WhitePlayer (Rooms s ! idx) = Some u \<longrightarrow> WhitePlayer (snd (mroom_leave user (Rooms s ! i))) = Some u)"
    by (auto simp: mroom_leave_def Room_Leave_def Let_def)
qed

interpretation abandonment: server_law cfg
  "\<lambda>s. config_ok cfg stored \<and> abandoned u idx black white s"
  "\<lambda>_ s. config_ok cfg stored \<and> abandoned u idx black white s"
proof unfold_locales
  show "config_ok cfg stored \<and> abandoned u idx black white s'"
    if "config_ok cfg stored \<and> abandoned u idx black white s" "attended s s'" for s s'
    using that abandoned_attended by blast
  show "config_ok cfg stored \<and> abandoned u idx black white s'"
    if "config_ok cfg stored \<and> abandoned u idx black white s"
      "authenticate (ext cfg) (users cfg) c data s = Some (Inl err, s')" for s c data err s'
    using that authenticate_keeps(1) abandoned_db_frame unfolding config_ok_def by blast
  show "config_ok cfg stored \<and> abandoned u idx black white (set_payload c (Payloads s' c\<lparr>PUser := Some user\<rparr>) s')"
    if "config_ok cfg stored \<and> abandoned u idx black white s"
      "authenticate (ext cfg) (users cfg) c data s = Some (Inr user, s')" for s c data user s'
  proof -
    have laws: "sql_laws (ext cfg) stored" using that(1) by (simp add: config_ok_def)
    show ?thesis
      using that(1) abandoned_login [OF _ authenticate_keeps(1) [OF laws that(2)] authenticate_user(2) [OF laws that(2)]]
      by blast
  qed
  show "config_ok cfg stored \<and> abandoned u idx black white (set_room i (snd (admit role user (Rooms s ! i))) s)"
    if "config_ok cfg stored \<and> abandoned u idx black white s" for c s user i role
    using that abandoned_admit by blast
  show "config_ok cfg stored \<and> abandoned u idx black white (set_room i (snd (mroom_leave user (Rooms s ! i))) s)"
    if "config_ok cfg stored \<and> abandoned u idx black white s" "PUser (Payloads s c) = Some user" for s c user i
    using that abandoned_leave by blast
qed (auto simp: config_ok_def abandoned_def NewPayloads_def user_NewPayload_def)

text \<open>
  A client that authenticates again on its connection abandons its first user object: the
  payload holds the new one, and the old one stays where it is.
\<close>

lemma relogin_abandons:
  assumes cfg: "config_ok cfg stored" and ok: "members_ok s"
    and old: "PUser (Payloads s c) = Some u" "idx < length (Rooms s)" "u \<in> set (Users (Rooms s ! idx))"
    and op: "us_JoinRoom (users cfg) \<noteq> s_FatalError (fatal cfg)"
    and auth: "authenticate (ext cfg) (users cfg) c data s = Some (Inr user, s1)"
    and run: "DistributeContext_Next (mdwDistributeList cfg) (distribute cfg)
      \<lparr>Instruction = us_JoinRoom (users cfg), Data = data, Conn = c\<rparr> s = Some (err, s')"
  shows "abandoned u idx (BlackPlayer (Rooms s ! idx) = Some u) (WhitePlayer (Rooms s ! idx) = Some u) s'"
proof -
  let ?law = "\<lambda>s'. config_ok cfg stored \<and>
    abandoned u idx (BlackPlayer (Rooms s ! idx) = Some u) (WhitePlayer (Rooms s ! idx) = Some u) s'"
  let ?s2 = "set_payload c (Payloads s1 c\<lparr>PUser := Some user\<rparr>) s1"
  let ?req = "\<lparr>Instruction = us_JoinRoom (users cfg), Data = data, Conn = c\<rparr>"
  let ?behind = "room_ProcessDistribute (hall_rooms cfg) (distribute cfg)"
  have laws: "sql_laws (ext cfg) stored" using cfg by (simp add: config_ok_def)
  note fr = authenticate_keeps(1) [OF laws auth] and id = authenticate_user [OF laws auth]
  have fr': "Rooms s1 = Rooms s" "Payloads s1 = Payloads s" using fr by (simp_all add: db_frame_def)
  have new: "user \<noteq> u" "user_id u < next_user s1" "user_conn u = c"
    using members_okD(4) [OF ok old(1)] id by auto
  have gone: "PUser (Payloads ?s2 c') \<noteq> Some u" for c'
    using new(1,3) fr'(2) members_okD(4) [OF ok, of c' u] by auto
  have law2: "?law ?s2"
    using cfg old gone new(2) fr' unfolding abandoned_def by simp
  obtain s3 where s3: "?behind ?req ?s2 = Some (err, s3)"
    and s': "s' = (let s = in_world (report_error (fatal cfg) err) s3 in
      in_world (processExecutions (fatal cfg) (Executions (Payloads s c))) s)"
    using run op auth
    by (auto simp: context_Next mdw_lists fatal_ProcessDistribute_def user_ProcessDistribute_def bind_eq_Some_conv Let_def)
  have "?law s3"
    using keepsD [OF abandonment.room_keeps [OF abandonment.endpoint_keeps] _ s3] law2 by simp
  from abandonment.report_keeps [OF this] have "?law (in_world (report_error (fatal cfg) err) s3)" .
  then have "?law s'" unfolding s' Let_def by (rule abandonment.in_world) (rule processExecutions_wframe)
  then show ?thesis by simp
qed

section \<open>The books of the server\<close>

text \<open>
  The requests of a connection leave the set of connections alone and never open a closed
  connection again.
\<close>

definition unlisted :: "conn list \<Rightarrow> conn set \<Rightarrow> 'db server \<Rightarrow> bool" where
  "unlisted cs closed s \<longleftrightarrow> connectionSet s = cs \<and> closed \<subseteq> set (net_closed (World s))"

lemma unlisted_db_frame: "unlisted cs closed s \<Longrightarrow> db_frame s s' \<Longrightarrow> unlisted cs closed s'"
  by (auto simp: unlisted_def db_frame_def)

interpretation listing: chain_law cfg
  "\<lambda>s. config_ok cfg stored \<and> unlisted cs closed s" "\<lambda>_ s. config_ok cfg stored \<and> unlisted cs closed s"
proof unfold_locales
  show "config_ok cfg stored \<and> unlisted cs closed s'"
    if "config_ok cfg stored \<and> unlisted cs closed s" "attended s s'" for s s'
    using that by (auto simp: unlisted_def attended_def wframe_def)
  have login: "config_ok cfg stored \<and> unlisted cs closed s'"
    if "config_ok cfg stored \<and> unlisted cs closed s"
      "authenticate (ext cfg) (users cfg) c data s = Some (r, s')" for s c data r s'
    using that authenticate_keeps(1) unlisted_db_frame unfolding config_ok_def by blast
  then show "config_ok cfg stored \<and> unlisted cs closed s'"
    if "config_ok cfg stored \<and> unlisted cs closed s"
      "authenticate (ext cfg) (users cfg) c data s = Some (Inl err, s')" for s c data err s'
    using that by blast
  show "config_ok cfg stored \<and> unlisted cs closed (set_payload c (Payloads s' c\<lparr>PUser := Some user\<rparr>) s')"
    if "config_ok cfg stored \<and> unlisted cs closed s"
      "authenticate (ext cfg) (users cfg) c data s = Some (Inr user, s')" for s c data user s'
    using login [OF that] by (simp add: unlisted_def)
qed (auto simp: config_ok_def unlisted_def)

lemma chain_listed:
  assumes "config_ok cfg stored"
    "DistributeContext_Next (mdwDistributeList cfg) (distribute cfg) req s = Some (err, s')"
  shows "connectionSet s' = connectionSet s" "set (net_closed (World s)) \<subseteq> set (net_closed (World s'))"
proof -
  have "config_ok cfg stored \<and> unlisted (connectionSet s) (set (net_closed (World s))) s"
    using assms(1) by (simp add: unlisted_def)
  from keepsD [OF listing.chain_keeps this assms(2)]
  show "connectionSet s' = connectionSet s" "set (net_closed (World s)) \<subseteq> set (net_closed (World s'))"
    by (simp_all add: unlisted_def)
qed

lemma leave_listed:
  assumes "processUserLeave m c s = Some s'"
  shows "connectionSet s' = connectionSet s" "set (net_closed (World s)) \<subseteq> set (net_closed (World s'))"
  using processUserLeave_outcome [OF assms] by (auto simp: wframe_def)

text \<open>
  The connections with a pipe are the members of the connection set, and every connection
  that was accepted and has no pipe any more is closed.
\<close>

definition books_ok :: "'db loop \<Rightarrow> bool" where
  "books_ok l \<longleftrightarrow>
     (\<forall>c. pipes l c \<noteq> None \<longleftrightarrow> c \<in> set (connectionSet (core l))) \<and> distinct (connectionSet (core l)) \<and>
     (\<forall>c \<in> set (connectionSet (core l)). c < next_conn l) \<and>
     (\<forall>c < next_conn l. pipes l c = None \<longrightarrow> c \<in> set (net_closed (World (core l))))"

lemma books_start: "books_ok (loop_start db w rooms)"
  by (simp add: books_ok_def loop_start_def)

lemma books_core:
  assumes "books_ok l" "connectionSet s = connectionSet (core l)"
    "set (net_closed (World (core l))) \<subseteq> set (net_closed (World s))"
  shows "books_ok (l\<lparr>core := s\<rparr>)" "pipes l c \<noteq> None \<Longrightarrow> books_ok (l\<lparr>core := s, pipes := (pipes l)(c \<mapsto> p)\<rparr>)"
  using assms by (auto simp: books_ok_def)

lemma books_pipe:
  assumes cfg: "config_ok cfg stored" and ok: "books_ok l" and step: "pipe_step cfg c l = Some l'"
  shows "books_ok l'"
proof (cases "pipes l c")
  case None
  then show ?thesis using ok step by (simp add: pipe_step_def)
next
  case (Some p)
  have same: "books_ok (l\<lparr>pipes := (pipes l)(c \<mapsto> q)\<rparr>)" for q
    using ok Some by (auto simp: books_ok_def)
  show ?thesis
  proof (cases p)
    case (Reading stream)
    then have "\<exists>q. l' = l\<lparr>pipes := (pipes l)(c \<mapsto> q)\<rparr>"
      using Some step by (auto simp: pipe_step_def split: if_splits option.split_asm sum.split_asm prod.split_asm)
    then show ?thesis using same by auto
  next
    case (Holding i d stream)
    then obtain err s q where s: "DistributeContext_Next (mdwDistributeList cfg) (distribute cfg)
        \<lparr>Instruction = i, Data = d, Conn = c\<rparr> (core l) = Some (err, s)" "l' = l\<lparr>core := s, pipes := (pipes l)(c \<mapsto> q)\<rparr>"
      using Some step by (auto simp: pipe_step_def bind_eq_Some_conv)
    then show ?thesis using books_core(2) [OF ok chain_listed [OF cfg s(1)]] Some by simp
  next
    case Leaving
    then obtain s where s: "processUserLeave (hall_rooms cfg) c (core l) = Some s"
      "l' = l\<lparr>core := in_world (Conn_Close c) s\<lparr>connectionSet := remove1 c (connectionSet s)\<rparr>,
         pipes := (pipes l)(c := None)\<rparr>"
      using Some step by (auto simp: pipe_step_def disconnect_chain bind_eq_Some_conv)
    then show ?thesis using ok leave_listed [OF s(1)] by (auto simp: books_ok_def)
  qed
qed

lemma closed_all: "set (net_closed (fold Conn_Close cs w)) = set cs \<union> set (net_closed w)"
  by (induction cs arbitrary: w) auto

lemma books_step:
  assumes cfg: "config_ok cfg stored" and ok: "books_ok l" and step: "loop_step cfg e l = Some l'"
  shows "books_ok l'"
proof (cases e)
  case (ETick t)
  then show ?thesis using books_core(1) [OF ok, of "in_world (\<lambda>w. w\<lparr>unix_now := t\<rparr>) (core l)"] step by auto
next
  case (EAccept stream)
  then show ?thesis
    using ok step
    by (auto simp: books_ok_def accept_round_def connect_chain report_error_def Let_def less_Suc_eq split: if_splits)
next
  case (EAcceptError err)
  let ?s = "in_world (report_error (fatal cfg) (Some err)) (core l)"
  have "set (net_closed (World (core l))) \<subseteq> set (net_closed (World ?s))"
    using report_error_wframe unfolding wframe_def by simp
  then have "books_ok (l\<lparr>core := ?s\<rparr>)" using books_core(1) [OF ok, of ?s] by simp
  then show ?thesis
    using EAcceptError ok step by (auto simp: books_ok_def accept_round_def connect_chain Let_def split: if_splits)
next
  case (EPipe c)
  then show ?thesis using books_pipe [OF cfg ok] step by simp
next
  case ECloseAll
  then show ?thesis
    using ok step by (auto simp: books_ok_def closed_all)
qed

lemma books_run:
  "config_ok cfg stored \<Longrightarrow> books_ok l \<Longrightarrow> run (loop_step cfg) es l = Some l' \<Longrightarrow> books_ok l'"
proof (induction es arbitrary: l)
  case Nil
  then show ?case by simp
next
  case (Cons e es)
  then show ?case using books_step [of cfg stored l e] by (auto split: option.split_asm)
qed

lemma step_next_conn: "loop_step cfg e l = Some l' \<Longrightarrow> next_conn l \<le> next_conn l'"
proof (cases e)
  case (EPipe c)
  moreover assume "loop_step cfg e l = Some l'"
  ultimately show ?thesis using pipe_step_frame [of cfg c l l' c] by simp
qed (auto simp: accept_round_def connect_chain Let_def split: if_splits)

lemma run_next_conn: "run (loop_step cfg) es l = Some l' \<Longrightarrow> next_conn l \<le> next_conn l'"
proof (induction es arbitrary: l)
  case Nil
  then show ?case by simp
next
  case (Cons e es)
  then obtain l1 where l1: "loop_step cfg e l = Some l1" "run (loop_step cfg) es l1 = Some l'"
    by (auto split: option.split_asm)
  then show ?case using Cons.IH [OF l1(2)] step_next_conn [OF l1(1)] by simp
qed

end
