(* ===== verification/Startup.thy ===== *)
theory Startup
  imports History
begin

text \<open>
  \<open>backend/config/config.go\<close> and \<open>backend/main.go\<close>: reading the configuration and building
  the server. The file system, the network and the random numbers of the UUID package are
  the state \<open>'os\<close> of a platform, and YAML is third-party code; their functions are the
  fields of \<open>platform\<close>. The lemmas show that a configuration that was read once is read
  again unchanged, and that every server that main starts satisfies the invariants that the
  laws of the server need at their start.
\<close>

section \<open>The configuration file (config.go)\<close>

record config_room =
  cf_Name :: gostring
  cf_MaxUser :: int

record Config =
  Address :: gostring
  ServerName :: gostring
  Uuid :: gostring
  DatabasePath :: gostring
  cf_Rooms :: "config_room list"

record 'os platform =
  ReadFile :: "gostring \<Rightarrow> 'os \<Rightarrow> go_error + bytes"
  WriteFile :: "gostring \<Rightarrow> bytes \<Rightarrow> 'os \<Rightarrow> go_error option \<times> 'os"
  yaml_Unmarshal :: "bytes \<Rightarrow> go_error + Config"
  yaml_Marshal :: "Config \<Rightarrow> go_error + bytes"
  uuid_New :: "'os \<Rightarrow> gostring \<times> 'os"
  ResolveUDPAddr :: "gostring \<Rightarrow> go_error + bytes"
  ResolveTCPAddr :: "gostring \<Rightarrow> go_error + bytes"
  ListenUDP :: "bytes \<Rightarrow> 'os \<Rightarrow> go_error option \<times> 'os"
  ListenTCP :: "bytes \<Rightarrow> 'os \<Rightarrow> go_error option \<times> 'os"

text \<open>The result is a configuration or nil, and an error or nil; the last two errors come with both.\<close>

definition ReadConfig ::
  "'os platform \<Rightarrow> gostring \<Rightarrow> 'os \<Rightarrow> (Config option \<times> go_error option) \<times> 'os" where
  "ReadConfig p path os =
     (case ReadFile p path os of
        Inl err \<Rightarrow> ((None, Some err), os)
      | Inr file \<Rightarrow>
          (case yaml_Unmarshal p file of
             Inl err \<Rightarrow> ((None, Some err), os)
           | Inr conf \<Rightarrow>
               if Uuid conf = [] then
                 let (u, os) = uuid_New p os; conf = conf\<lparr>Uuid := u\<rparr> in
                 (case yaml_Marshal p conf of
                    Inl err \<Rightarrow> ((Some conf, Some err), os)
                  | Inr yamlBytes \<Rightarrow>
                      (case WriteFile p path yamlBytes os of
                         (Some err, os) \<Rightarrow> ((Some conf, Some err), os)
                       | (None, os) \<Rightarrow> ((Some conf, None), os)))
               else ((Some conf, None), os)))"

text \<open>
  What the platform documents: a file that was written is read back, YAML reads what it
  wrote, and a new UUID is not the empty string.
\<close>

definition platform_ok :: "'os platform \<Rightarrow> bool" where
  "platform_ok p \<longleftrightarrow>
     (\<forall>path bs os. fst (WriteFile p path bs os) = None \<longrightarrow> ReadFile p path (snd (WriteFile p path bs os)) = Inr bs) \<and>
     (\<forall>conf bs. yaml_Marshal p conf = Inr bs \<longrightarrow> yaml_Unmarshal p bs = Inr conf) \<and>
     (\<forall>os. fst (uuid_New p os) \<noteq> [])"

section \<open>The sockets (udp/server.go, idtcp/server.go)\<close>

text \<open>
  The two constructors resolve the address and open a socket, and panic when either fails.
  The query service keeps the socket and its handler, the server the three lists of
  \<open>ServerLoop\<close>; what they keep does not depend on the platform.
\<close>

definition udp_NewServer :: "'os platform \<Rightarrow> gostring \<Rightarrow> 'os \<Rightarrow> 'os option" where
  "udp_NewServer p address os =
     (case ResolveUDPAddr p address of
        Inl err \<Rightarrow> panic
      | Inr serverUdpAddr \<Rightarrow>
          (case ListenUDP p serverUdpAddr os of
             (Some err, os) \<Rightarrow> panic
           | (None, os) \<Rightarrow> Some os))"

definition idtcp_NewServer :: "'os platform \<Rightarrow> gostring \<Rightarrow> 'os \<Rightarrow> 'os option" where
  "idtcp_NewServer p address os =
     (case ResolveTCPAddr p address of
        Inl err \<Rightarrow> panic
      | Inr serverTcpAddr \<Rightarrow>
          (case ListenTCP p serverTcpAddr os of
             (Some err, os) \<Rightarrow> panic
           | (None, os) \<Rightarrow> Some os))"

section \<open>The main function (main.go)\<close>

text \<open>
  The program panics when the configuration cannot be read, the database cannot be opened
  or the sockets cannot be opened. Otherwise it runs the two servers: the result is the
  configuration of the chains, the state before the first event, and the name that the
  query service answers with.
\<close>

definition main_program ::
  "'os platform \<Rightarrow> 'db external \<Rightarrow> gostring \<Rightarrow> 'os \<Rightarrow> 'db \<Rightarrow> world \<Rightarrow> ('db config \<times> 'db loop \<times> gostring) option" where
  "main_program p e configPath os db w =
     (case ReadConfig p configPath os of
        ((conf, Some err), os) \<Rightarrow> panic
      | ((conf, None), os) \<Rightarrow> do {
          conf \<leftarrow> conf;
          case user_NewMiddleware e S_JoinRoom_op C_YouJoinRoom_op (DatabasePath conf) (Uuid conf)
              (core (loop_start db w [])) of
            (Inl err, s) \<Rightarrow> panic
          | (Inr userMiddleware, s) \<Rightarrow>
              let rooms = map (\<lambda>r. \<lparr>cr_Name = cf_Name r, cr_MaxUsers = cf_MaxUser r\<rparr>) (cf_Rooms conf);
                  (cfg, rs) = main_config e userMiddleware rooms;
                  serv = NewServer (ServerName conf)
              in do {
                os \<leftarrow> udp_NewServer p (Address conf) os;
                os \<leftarrow> idtcp_NewServer p (Address conf) os;
                Some (cfg, loop_start (Db s) (World s) rs, serv)
              }
        })"

section \<open>The server that main starts\<close>

lemma NewDatabase_stored:
  assumes "sql_laws e stored" "NewDatabase e path s = (r, s')"
  shows "stored (Db s') = stored (Db s)" "World s' = World s"
proof -
  obtain e1 s1 where 1: "on_db (sql_Open e path) s = (e1, s1)" by fastforce
  obtain e2 s2 where 2: "on_db (sql_Exec e PragmaLocking) s1 = (e2, s2)" by fastforce
  obtain e3 s3 where 3: "on_db (sql_Exec e CreateTable) s2 = (e3, s3)" by fastforce
  have "stored (Db s1) = stored (Db s)" "stored (Db s2) = stored (Db s1)" "stored (Db s3) = stored (Db s2)"
    using sql_lawsD(1,2) [OF assms(1)] on_db_spec(3) [OF 1] on_db_spec(3) [OF 2] on_db_spec(3) [OF 3] by metis+
  moreover have "World s1 = World s" "World s2 = World s1" "World s3 = World s2"
    using on_db_spec(4) [OF 1] on_db_spec(4) [OF 2] on_db_spec(4) [OF 3] by simp_all
  moreover have "s' = s1 \<or> s' = s2 \<or> s' = s3"
    using assms(2) 1 2 3 by (auto simp: NewDatabase_def split: option.splits)
  ultimately show "stored (Db s') = stored (Db s)" "World s' = World s" by auto
qed

lemma user_NewMiddleware_ok:
  assumes "sql_laws e stored" "user_NewMiddleware e sj cj path uuid s = (Inr um, s')"
  shows "us_JoinRoom um = sj" "stored (Db s') = stored (Db s)" "World s' = World s"
proof -
  obtain d where "NewDatabase e path s = (Inr d, s')" "us_JoinRoom um = sj"
    using assms(2) by (auto simp: user_NewMiddleware_def split: sum.splits prod.splits)
  then show "us_JoinRoom um = sj" "stored (Db s') = stored (Db s)" "World s' = World s"
    using NewDatabase_stored [OF assms(1)] by simp_all
qed

text \<open>A room that nobody has entered.\<close>

definition vacant :: "mroom \<Rightarrow> bool" where
  "vacant room \<longleftrightarrow> mroom_ok room \<and> Users room = [] \<and> BlackPlayer room = None \<and> WhitePlayer room = None"

lemma vacant_new: "vacant (mroom_NewRoom name k)"
  using mroom_NewRoom_ok [of name k]
  by (simp add: vacant_def mroom_NewRoom_def game_room.defs mroom.defs game_NewRoom_def Let_def)

lemma main_config_ok:
  assumes "main_config e um config = (cfg, rooms)" "sql_laws e stored" "us_JoinRoom um = S_JoinRoom_op"
  shows "config_ok cfg stored" "list_all vacant rooms"
proof -
  obtain rm rs where r: "room_NewMiddleware S_JoinRoom_op S_LeaveRoom_op C_YouJoinRoom_op C_OtherJoinRoom_op
      C_UserLeaveRoom_op C_GameOver_op config = (rm, rs)" by fastforce
  then have "rs_JoinRoom rm = S_JoinRoom_op" "list_all vacant rs"
    by (auto simp: room_NewMiddleware_def Let_def list_all_iff vacant_new)
  then show "config_ok cfg stored" "list_all vacant rooms"
    using assms r by (auto simp: main_config_def config_ok_def fatal_NewMiddleware_def)
qed

text \<open>What the laws of the server know of its start.\<close>

definition started ::
  "'db config \<Rightarrow> ('db \<Rightarrow> gostring \<rightharpoonup> gostring) \<Rightarrow> 'db \<Rightarrow> world \<Rightarrow> 'db loop \<Rightarrow> bool" where
  "started cfg stored db w start \<longleftrightarrow>
     config_ok cfg stored \<and>
     (\<exists>db' rooms. start = loop_start db' w rooms \<and> stored db' = stored db \<and> list_all vacant rooms)"

text \<open>The steps of a start that does not panic.\<close>

lemma main_steps:
  assumes "main_program p e path os db w = Some (cfg, start, name)"
  obtains conf :: Config and um s rs where
    "user_NewMiddleware e S_JoinRoom_op C_YouJoinRoom_op (DatabasePath conf) (Uuid conf) (core (loop_start db w [])) = (Inr um, s)"
    "main_config e um (map (\<lambda>r. \<lparr>cr_Name = cf_Name r, cr_MaxUsers = cf_MaxUser r\<rparr>) (cf_Rooms conf)) = (cfg, rs)"
    "start = loop_start (Db s) (World s) rs"
proof -
  let ?s0 = "core (loop_start db w [])"
  obtain mc err os1 where rc: "ReadConfig p path os = ((mc, err), os1)" by (metis surj_pair)
  then obtain conf where conf: "mc = Some conf" "err = None"
    using assms by (cases err; cases mc) (auto simp: main_program_def)
  obtain r s where u0: "user_NewMiddleware e S_JoinRoom_op C_YouJoinRoom_op (DatabasePath conf) (Uuid conf) ?s0 = (r, s)"
    by fastforce
  then obtain um where um0: "r = Inr um"
    using assms rc conf by (cases r) (auto simp: main_program_def)
  note u = u0 [unfolded um0]
  obtain cfg' rs where c': "main_config e um (map (\<lambda>r. \<lparr>cr_Name = cf_Name r, cr_MaxUsers = cf_MaxUser r\<rparr>) (cf_Rooms conf)) = (cfg', rs)"
    by fastforce
  have "cfg' = cfg \<and> start = loop_start (Db s) (World s) rs"
    using assms rc conf u c' by (auto simp: main_program_def Let_def bind_eq_Some_conv)
  then have "main_config e um (map (\<lambda>r. \<lparr>cr_Name = cf_Name r, cr_MaxUsers = cf_MaxUser r\<rparr>) (cf_Rooms conf)) = (cfg, rs)"
    "start = loop_start (Db s) (World s) rs" using c' by simp_all
  with u show ?thesis by (rule that)
qed

lemma main_started:
  assumes "main_program p e path os db w = Some (cfg, start, name)" "sql_laws e stored"
  shows "started cfg stored db w start"
proof -
  obtain conf :: Config and um s rs where
    u: "user_NewMiddleware e S_JoinRoom_op C_YouJoinRoom_op (DatabasePath conf) (Uuid conf) (core (loop_start db w [])) = (Inr um, s)"
    and c: "main_config e um (map (\<lambda>r. \<lparr>cr_Name = cf_Name r, cr_MaxUsers = cf_MaxUser r\<rparr>) (cf_Rooms conf)) = (cfg, rs)"
    and st: "start = loop_start (Db s) (World s) rs"
    by (rule main_steps [OF assms(1)])
  note um = user_NewMiddleware_ok [OF assms(2) u]
  have "stored (Db s) = stored db" "World s = w" using um(2,3) by (simp_all add: loop_start_def)
  then show ?thesis using main_config_ok [OF c assms(2) um(1)] st by (auto simp: started_def)
qed

lemma main_fields:
  assumes "main_program p e path os db w = Some (cfg, start, name)"
  shows "us_JoinRoom (users cfg) = S_JoinRoom_op" "ext cfg = e"
proof -
  obtain conf :: Config and um s rs where
    u: "user_NewMiddleware e S_JoinRoom_op C_YouJoinRoom_op (DatabasePath conf) (Uuid conf) (core (loop_start db w [])) = (Inr um, s)"
    and c: "main_config e um (map (\<lambda>r. \<lparr>cr_Name = cf_Name r, cr_MaxUsers = cf_MaxUser r\<rparr>) (cf_Rooms conf)) = (cfg, rs)"
    by (rule main_steps [OF assms])
  then have "us_JoinRoom um = S_JoinRoom_op"
    by (auto simp: user_NewMiddleware_def split: sum.splits prod.splits)
  then show "us_JoinRoom (users cfg) = S_JoinRoom_op" "ext cfg = e"
    using c by (auto simp: main_config_def split: prod.splits)
qed

lemma started_good:
  assumes "started cfg stored db w start" "hashes_ok (stored db)" "rand_ok w"
  shows "good_start cfg stored start"
proof -
  obtain db' rooms where r: "start = loop_start db' w rooms" "stored db' = stored db" "list_all vacant rooms"
    and cfg: "config_ok cfg stored"
    using assms(1) by (auto simp: started_def)
  have "list_all mroom_ok rooms" using r(3) by (simp add: list_all_iff vacant_def)
  moreover have "hashes_ok (stored db')" using assms(2) r(2) by simp
  ultimately show ?thesis using cfg r(1) assms(3) unfolding good_start_def by blast
qed

lemma started_members: "started cfg stored db w start \<Longrightarrow> config_ok cfg stored \<and> members_ok (core start)"
  by (auto simp: started_def members_ok_def loop_start_def seats_ok_def vacant_def list_all_length
      NewPayloads_def user_NewPayload_def)

lemma started_books: "started cfg stored db w start \<Longrightarrow> config_ok cfg stored \<and> books_ok start"
  by (auto simp: started_def books_start)

section \<open>A platform that never fails\<close>

text \<open>The file of a fixed configuration holds its UUID.\<close>

definition demo_conf :: "gostring \<Rightarrow> Config" where
  "demo_conf u =
     \<lparr>Address = lit '':52099'', ServerName = lit ''gobang'', Uuid = u, DatabasePath = lit ''db'',
      cf_Rooms = [\<lparr>cf_Name = lit ''hall'', cf_MaxUser = 10\<rparr>]\<rparr>"

definition demo_platform :: "(gostring \<rightharpoonup> bytes) platform" where
  "demo_platform =
     \<lparr>ReadFile = \<lambda>path os. case os path of None \<Rightarrow> Inl ErrIO | Some bs \<Rightarrow> Inr bs,
      WriteFile = \<lambda>path bs os. (None, os(path \<mapsto> bs)),
      yaml_Unmarshal = \<lambda>bs. Inr (demo_conf bs),
      yaml_Marshal = \<lambda>conf. if conf = demo_conf (Uuid conf) then Inr (Uuid conf) else Inl ErrIO,
      uuid_New = \<lambda>os. (lit ''0001'', os),
      ResolveUDPAddr = Inr,
      ResolveTCPAddr = Inr,
      ListenUDP = \<lambda>address os. (None, os),
      ListenTCP = \<lambda>address os. (None, os)\<rparr>"

lemma demo_platform_ok: "platform_ok demo_platform"
  by (auto simp: platform_ok_def demo_platform_def lit_def split: if_splits)

text \<open>The first start, from a file without a UUID.\<close>

lemma demo_first_start:
  "ReadConfig demo_platform path [path \<mapsto> []] =
    ((Some (demo_conf (lit ''0001'')), None), [path \<mapsto> lit ''0001''])"
  by (simp add: ReadConfig_def demo_platform_def demo_conf_def)

lemma demo_main:
  "\<exists>cfg start. main_program demo_platform map_external path [path \<mapsto> []] Map.empty w = Some (cfg, start, lit ''gobang'')"
proof -
  have "ReadConfig demo_platform path [path \<mapsto> []] =
      ((Some (demo_conf (lit ''0001'')), None), [path \<mapsto> lit ''0001''])" by (rule demo_first_start)
  then show ?thesis
    by (simp add: main_program_def user_NewMiddleware_def NewDatabase_def on_db_def map_external_def demo_conf_def
        demo_platform_def NewServer_def MaxServerNameLen_def udp_NewServer_def idtcp_NewServer_def Let_def split_beta)
qed

section \<open>Properties\<close>

text \<open>
  Claim C20. The identity of a server is stable: a configuration that was read without an
  error has a UUID, and reading the file again (at the next start) gives the same
  configuration and changes nothing, also when the first start had to make the UUID and
  write it into the file.
\<close>

theorem configuration_is_stable:
  assumes "platform_ok p" "ReadConfig p path os = ((conf, None), os')"
  shows "\<exists>c. conf = Some c \<and> Uuid c \<noteq> [] \<and> ReadConfig p path os' = ((Some c, None), os')"
proof -
  obtain bs0 c0 where f: "ReadFile p path os = Inr bs0" "yaml_Unmarshal p bs0 = Inr c0"
    using assms(2) by (auto simp: ReadConfig_def split: sum.split_asm)
  show ?thesis
  proof (cases "Uuid c0 = []")
    case False
    then show ?thesis using assms(2) f by (auto simp: ReadConfig_def)
  next
    case True
    obtain u os1 where u: "uuid_New p os = (u, os1)" by fastforce
    let ?c = "c0\<lparr>Uuid := u\<rparr>"
    obtain bs where bs: "yaml_Marshal p ?c = Inr bs"
      using assms(2) f True u by (auto simp: ReadConfig_def Let_def split: sum.split_asm)
    obtain e os2 where w: "WriteFile p path bs os1 = (e, os2)" by fastforce
    have r: "e = None" "conf = Some ?c" "os' = os2"
      using assms(2) f True u bs w by (cases e; auto simp: ReadConfig_def Let_def)+
    have "fst (uuid_New p os) \<noteq> []" "yaml_Unmarshal p bs = Inr ?c"
      "fst (WriteFile p path bs os1) = None \<longrightarrow> ReadFile p path (snd (WriteFile p path bs os1)) = Inr bs"
      using assms(1) bs unfolding platform_ok_def by blast+
    then have "u \<noteq> []" "ReadFile p path os2 = Inr bs" "yaml_Unmarshal p bs = Inr ?c"
      using u w r(1) by simp_all
    then show ?thesis using r by (simp add: ReadConfig_def)
  qed
qed

theorem configuration_is_stable_witness:
  "\<exists>c. Uuid c \<noteq> [] \<and> ReadConfig demo_platform (lit ''config.yaml'') [lit ''config.yaml'' \<mapsto> lit ''0001''] =
    ((Some c, None), [lit ''config.yaml'' \<mapsto> lit ''0001''])"
  using configuration_is_stable [OF demo_platform_ok demo_first_start] by blast

end
