(* ===== verification/Sessions.thy ===== *)
theory Sessions
  imports History
begin

text \<open>
  The life of a connection as the protocol sees it, and the refinement of the server to it:
  a connection is accepted as a guest, becomes a member of a room by one join request,
  stays a member until its pipe leaves its loop, and then ends. The relation \<open>life\<close> is the
  abstract specification; every step of the server moves each connection along it or leaves
  its phase alone, whatever the clients send.
\<close>

section \<open>The life of a connection\<close>

datatype phase = Fresh | Guest | Member | Closing | Ended

inductive life :: "phase \<Rightarrow> phase \<Rightarrow> bool" where
  accepted: "life Fresh Guest"
| joins: "life Guest Member"
| guest_fails: "life Guest Closing"
| member_fails: "life Member Closing"
| ends: "life Closing Ended"

code_pred life .

inductive_cases life_from_Ended: "life Ended q"
inductive_cases life_to_Member: "life p Member"
inductive_simps life_simps: "life Fresh q" "life Guest q" "life Member q" "life Closing q" "life Ended q"

text \<open>The phases in the order of a life.\<close>

fun rank :: "phase \<Rightarrow> nat" where
  "rank Fresh = 0" | "rank Guest = 1" | "rank Member = 2" | "rank Closing = 3" | "rank Ended = 4"

lemma rank_inj: "rank p = rank q \<Longrightarrow> p = q"
  by (cases p; cases q) simp_all

instantiation phase :: linorder
begin

definition less_eq_phase :: "phase \<Rightarrow> phase \<Rightarrow> bool" where
  "less_eq_phase p q \<longleftrightarrow> rank p \<le> rank q"

definition less_phase :: "phase \<Rightarrow> phase \<Rightarrow> bool" where
  "less_phase p q \<longleftrightarrow> rank p < rank q"

instance
  by intro_classes (auto simp: less_eq_phase_def less_phase_def intro: rank_inj)

end

lemma life_grows: "life p q \<Longrightarrow> p < q"
  by (induction rule: life.induct) (simp_all add: less_phase_def)

lemma lives_grow: "life\<^sup>*\<^sup>* p q \<Longrightarrow> p \<le> q"
proof (induction rule: rtranclp_induct)
  case base
  then show ?case by simp
next
  case (step q r)
  then show ?case using life_grows [of q r] by simp
qed

text \<open>The phase of a connection in a state of the server.\<close>

definition phase_of :: "'db loop \<Rightarrow> conn \<Rightarrow> phase" where
  "phase_of l c =
     (case pipes l c of
        None \<Rightarrow> if c < next_conn l then Ended else Fresh
      | Some Leaving \<Rightarrow> Closing
      | Some p \<Rightarrow> if PUser (Payloads (core l) c) = None then Guest else Member)"

section \<open>What a request does to the payloads\<close>

lemma join_payloads:
  assumes "receiveJoinRoom m c data s = Some (err, s')"
  shows "c' \<noteq> c \<Longrightarrow> Payloads s' c' = Payloads s c'" "PUser (Payloads s' c) = PUser (Payloads s c)"
    "err = None \<Longrightarrow> PRoom (Payloads s' c) \<noteq> None"
proof -
  show "c' \<noteq> c \<Longrightarrow> Payloads s' c' = Payloads s c'" "PUser (Payloads s' c) = PUser (Payloads s c)"
    using receiveJoinRoom_outcome [OF assms] by (auto simp: admitted_def)
  assume "err = None"
  obtain idx role user where run: "enter m c idx role user s = Some (None, s')"
  proof (cases data rule: decode_JoinRoom_cases)
    case (1 e)
    then show ?thesis using assms \<open>err = None\<close> by (simp add: receiveJoinRoom_cases)
  next
    case (2 i)
    then show ?thesis
      using assms \<open>err = None\<close> that by (auto simp: receiveJoinRoom_cases split: if_splits option.split_asm)
  qed
  obtain e room where adm: "admit role user (Rooms s ! idx) = (e, room)" by fastforce
  then have "e = None" using run by (cases e) (simp_all add: enter_def)
  then show "PRoom (Payloads s' c) \<noteq> None"
    using run adm by (auto simp: enter_def bind_eq_Some_conv Let_def split: option.split_asm)
qed

lemma leave_payloads: "processUserLeave m c s = Some s' \<Longrightarrow> Payloads s' = Payloads s"
  using processUserLeave_outcome [of m c s s'] by auto

lemma room_payloads:
  assumes eps: "endpoints cfg = Endpoint_table"
    and run: "room_ProcessDistribute m (distribute cfg) req s = Some (err, s')"
  shows "c \<noteq> Conn req \<Longrightarrow> Payloads s' c = Payloads s c"
    "PUser (Payloads s' (Conn req)) = PUser (Payloads s (Conn req))"
    "err = None \<Longrightarrow> Payloads s' = Payloads s \<or> PRoom (Payloads s' (Conn req)) \<noteq> None"
    "err = None \<Longrightarrow> Instruction req = rs_JoinRoom m \<Longrightarrow> PRoom (Payloads s' (Conn req)) \<noteq> None"
proof -
  obtain e s1 where s1: "(if Instruction req = rs_JoinRoom m then receiveJoinRoom m (Conn req) (Data req) s
      else Some (None, s)) = Some (e, s1)"
    using run by (auto simp: room_ProcessDistribute_def bind_eq_Some_conv)
  have keep: "Payloads s' = Payloads s1" if "e = None"
  proof -
    obtain i s2 where s2: "distribute cfg req s1 = Some (i, s2)"
      "(if Instruction req = rs_LeaveRoom m then processUserLeave m (Conn req) s2 else Some s2) = Some s'"
      using run s1 \<open>e = None\<close> by (auto simp: room_ProcessDistribute_def bind_eq_Some_conv)
    have "Payloads s2 = Payloads s1"
      using distribute_attends [OF s2(1) eps] by (simp add: attended_def)
    then show ?thesis
      using s2(2) leave_payloads [of m "Conn req" s2 s'] by (simp split: if_splits)
  qed
  have fail: "err = Some x \<and> s' = s1" if "e = Some x" for x
    using run s1 that by (auto simp: room_ProcessDistribute_def)
  have p: "Payloads s' = Payloads s1" using keep fail by (cases e) auto
  have e: "err = None \<Longrightarrow> e = None" using fail by (cases e) auto
  show "c \<noteq> Conn req \<Longrightarrow> Payloads s' c = Payloads s c"
    "PUser (Payloads s' (Conn req)) = PUser (Payloads s (Conn req))"
    "err = None \<Longrightarrow> Payloads s' = Payloads s \<or> PRoom (Payloads s' (Conn req)) \<noteq> None"
    "err = None \<Longrightarrow> Instruction req = rs_JoinRoom m \<Longrightarrow> PRoom (Payloads s' (Conn req)) \<noteq> None"
    using s1 e unfolding p by (auto split: if_splits dest: join_payloads)
qed

lemma user_payloads:
  assumes cfg: "config_ok cfg stored"
    and run: "user_ProcessDistribute (ext cfg) (users cfg) (room_ProcessDistribute (hall_rooms cfg) (distribute cfg)) req s =
      Some (err, s')"
  shows "c \<noteq> Conn req \<Longrightarrow> Payloads s' c = Payloads s c"
    "err = None \<Longrightarrow> PUser (Payloads s' (Conn req)) \<noteq> None \<and>
      (Payloads s' = Payloads s \<or> PRoom (Payloads s' (Conn req)) \<noteq> None)"
proof -
  let ?m = "users cfg" and ?c = "Conn req" and ?room = "room_ProcessDistribute (hall_rooms cfg) (distribute cfg)"
  have wired: "endpoints cfg = Endpoint_table" "us_JoinRoom ?m = rs_JoinRoom (hall_rooms cfg)" "sql_laws (ext cfg) stored"
    using cfg by (simp_all add: config_ok_def)
  note room = room_payloads [OF wired(1), of "hall_rooms cfg" req]
  have "(c \<noteq> ?c \<longrightarrow> Payloads s' c = Payloads s c) \<and>
    (err = None \<longrightarrow> PUser (Payloads s' ?c) \<noteq> None \<and> (Payloads s' = Payloads s \<or> PRoom (Payloads s' ?c) \<noteq> None))"
  proof (cases "Instruction req = us_JoinRoom ?m")
    case False
    show ?thesis
    proof (cases "PUser (Payloads s ?c)")
      case None
      then show ?thesis using run False by (auto simp: user_ProcessDistribute_def)
    next
      case (Some u)
      then have r: "?room req s = Some (err, s')" using run False by (simp add: user_ProcessDistribute_def)
      show ?thesis using room(1,2,3) [OF r] Some by auto
    qed
  next
    case True
    then obtain r s1 where a: "authenticate (ext cfg) ?m ?c (Data req) s = Some (r, s1)"
      using run by (auto simp: user_ProcessDistribute_def bind_eq_Some_conv)
    have p1: "Payloads s1 = Payloads s" using authenticate_keeps(1) [OF wired(3) a] by (simp add: db_frame_def)
    show ?thesis
    proof (cases r)
      case (Inl e)
      then show ?thesis using run True a p1 by (auto simp: user_ProcessDistribute_def)
    next
      case (Inr u)
      then have r: "?room req (set_payload ?c (Payloads s1 ?c\<lparr>PUser := Some u\<rparr>) s1) = Some (err, s')"
        using run True a by (simp add: user_ProcessDistribute_def)
      show ?thesis using room(1,2,4) [OF r] True wired(2) p1 by auto
    qed
  qed
  then show "c \<noteq> ?c \<Longrightarrow> Payloads s' c = Payloads s c"
    "err = None \<Longrightarrow> PUser (Payloads s' ?c) \<noteq> None \<and> (Payloads s' = Payloads s \<or> PRoom (Payloads s' ?c) \<noteq> None)"
    by blast+
qed

lemma chain_payloads:
  assumes cfg: "config_ok cfg stored"
    and run: "DistributeContext_Next (mdwDistributeList cfg) (distribute cfg) req s = Some (err, s')"
  shows "c \<noteq> Conn req \<Longrightarrow> Payloads s' c = Payloads s c"
    "err = None \<Longrightarrow> PUser (Payloads s' (Conn req)) \<noteq> None \<and>
      (Payloads s' = Payloads s \<or> PRoom (Payloads s' (Conn req)) \<noteq> None)"
proof -
  obtain w s1 where s1: "user_ProcessDistribute (ext cfg) (users cfg)
      (room_ProcessDistribute (hall_rooms cfg) (distribute cfg)) req (s\<lparr>World := w\<rparr>) = Some (err, s1)"
    "Payloads s' = Payloads s1"
    using run by (auto simp: context_Next mdw_lists fatal_ProcessDistribute_def bind_eq_Some_conv Let_def)
  show "c \<noteq> Conn req \<Longrightarrow> Payloads s' c = Payloads s c"
    "err = None \<Longrightarrow> PUser (Payloads s' (Conn req)) \<noteq> None \<and>
      (Payloads s' = Payloads s \<or> PRoom (Payloads s' (Conn req)) \<noteq> None)"
    using user_payloads [OF cfg s1(1)] by (simp_all add: s1(2))
qed

section \<open>Every step follows a life\<close>

text \<open>
  A connection that has not been accepted has no pipe, and the user of a connection whose
  pipe is in its loop has entered a room.
\<close>

definition sessions_ok :: "'db loop \<Rightarrow> bool" where
  "sessions_ok l \<longleftrightarrow>
     (\<forall>c. next_conn l \<le> c \<longrightarrow> pipes l c = None) \<and> (\<forall>c \<in> active l. live c (core l))"

definition follows :: "'db loop \<Rightarrow> 'db loop \<Rightarrow> bool" where
  "follows l l' \<longleftrightarrow> sessions_ok l' \<and> (\<forall>c. phase_of l' c = phase_of l c \<or> life (phase_of l c) (phase_of l' c))"

lemma phase_of_cong:
  assumes "pipes l' c = pipes l c" "next_conn l' = next_conn l" "Payloads (core l') c = Payloads (core l) c"
  shows "phase_of l' c = phase_of l c"
  unfolding phase_of_def assms ..

text \<open>A step that changes no pipe and no payload.\<close>

lemma follows_quiet:
  assumes "sessions_ok l" "pipes l' = pipes l" "next_conn l' = next_conn l" "Payloads (core l') = Payloads (core l)"
  shows "follows l l'"
  using assms phase_of_cong [of l' _ l] by (simp add: follows_def sessions_ok_def active_def live_def)

text \<open>A step of one connection: only its pipe and its payload change.\<close>

lemma follows_pipe:
  assumes ok: "sessions_ok l"
    and other: "\<And>c'. c' \<noteq> c \<Longrightarrow> pipes l' c' = pipes l c' \<and> Payloads (core l') c' = Payloads (core l) c'"
    and next_c: "next_conn l' = next_conn l" "c < next_conn l"
    and live: "c \<in> active l' \<Longrightarrow> live c (core l')"
    and phase: "phase_of l' c = phase_of l c \<or> life (phase_of l c) (phase_of l' c)"
  shows "follows l l'"
proof -
  have "phase_of l' c' = phase_of l c'" "c' \<in> active l' \<longleftrightarrow> c' \<in> active l"
    "live c' (core l') \<longleftrightarrow> live c' (core l)" if "c' \<noteq> c" for c'
    using other [OF that] next_c(1) phase_of_cong [of l' c' l] by (simp_all add: active_def live_def)
  moreover have "pipes l' c' = None" if "next_conn l \<le> c'" for c'
    using ok other [of c'] next_c(2) that by (auto simp: sessions_ok_def)
  ultimately show ?thesis
    using ok live phase next_c(1) unfolding follows_def sessions_ok_def by metis
qed

lemma pipe_follows:
  assumes cfg: "config_ok cfg stored" and ok: "sessions_ok l" and step: "pipe_step cfg c l = Some l'"
  shows "follows l l'"
proof (cases "pipes l c")
  case None
  then show ?thesis using ok step follows_quiet [of l l] by (simp add: pipe_step_def)
next
  case (Some p)
  have c: "c < next_conn l" using ok Some by (metis not_le option.distinct(1) sessions_ok_def)
  have frame: "next_conn l' = next_conn l" "c' \<noteq> c \<Longrightarrow> pipes l' c' = pipes l c'" for c'
    using pipe_step_frame [OF step] by blast+
  show ?thesis
  proof (cases p)
    case (Reading stream)
    have "live c (core l)" using ok Some Reading by (auto simp: sessions_ok_def active_def)
    moreover have "core l' = core l \<and> (pipes l' c = Some Leaving \<or> (\<exists>i d rest. pipes l' c = Some (Holding i d rest)))"
      using step Some Reading
      by (auto simp: pipe_step_def split: if_splits option.split_asm sum.split_asm prod.split_asm)
    ultimately show ?thesis
      using frame Some Reading
      by (intro follows_pipe [OF ok _ _ c]) (auto simp: phase_of_def life_simps)
  next
    case (Holding i d stream)
    let ?req = "\<lparr>Instruction = i, Data = d, Conn = c\<rparr>"
    have live: "live c (core l)" using ok Some Holding by (auto simp: sessions_ok_def active_def)
    obtain err s where run: "DistributeContext_Next (mdwDistributeList cfg) (distribute cfg) ?req (core l) = Some (err, s)"
      and l': "l' = l\<lparr>core := s, pipes := (pipes l)(c \<mapsto> (if err = None then Reading stream else Leaving))\<rparr>"
      using step Some Holding by (auto simp: pipe_step_def bind_eq_Some_conv)
    note p = chain_payloads [OF cfg run, simplified]
    show ?thesis
      using live Some Holding p l'
      by (intro follows_pipe [OF ok _ _ c]) (auto simp: phase_of_def life_simps live_def active_def split: if_splits)
  next
    case Leaving
    then obtain s where s: "processUserLeave (hall_rooms cfg) c (core l) = Some s"
      "core l' = in_world (Conn_Close c) s\<lparr>connectionSet := remove1 c (connectionSet s)\<rparr>" "pipes l' c = None"
      using step Some by (auto simp: pipe_step_def disconnect_chain bind_eq_Some_conv)
    then show ?thesis
      using frame Some Leaving leave_payloads [OF s(1)] c
      by (intro follows_pipe [OF ok _ _ c]) (auto simp: phase_of_def life_simps active_def)
  qed
qed

lemma step_follows:
  assumes cfg: "config_ok cfg stored" and ok: "sessions_ok l" and step: "loop_step cfg e l = Some l'"
  shows "follows l l'"
proof (cases e)
  case (ETick t)
  then show ?thesis using step by (intro follows_quiet [OF ok]) auto
next
  case (EAccept stream)
  show ?thesis
  proof (cases "accepting l")
    case False
    then show ?thesis using step EAccept by (intro follows_quiet [OF ok]) auto
  next
    case True
    let ?c = "next_conn l"
    have l': "pipes l' = (pipes l)(?c \<mapsto> Reading stream)" "next_conn l' = ?c + 1"
      "Payloads (core l') = (Payloads (core l))(?c := NewPayloads)"
      using step EAccept True by (auto simp: accept_round_def connect_chain Let_def)
    have "pipes l ?c = None" using ok by (simp add: sessions_ok_def)
    moreover have "PUser NewPayloads = None" by (simp add: NewPayloads_def user_NewPayload_def)
    ultimately show ?thesis
      using ok l' by (auto simp: follows_def sessions_ok_def phase_of_def active_def live_def life_simps)
  qed
next
  case (EAcceptError err)
  then show ?thesis
    using step by (intro follows_quiet [OF ok]) (auto simp: accept_round_def connect_chain Let_def split: if_splits)
next
  case (EPipe c)
  then show ?thesis using pipe_follows [OF cfg ok] step by simp
next
  case ECloseAll
  then show ?thesis using step by (intro follows_quiet [OF ok]) auto
qed

lemma run_follows:
  assumes "config_ok cfg stored" "sessions_ok l" "run (loop_step cfg) es l = Some l'"
  shows "sessions_ok l' \<and> (\<forall>c. life\<^sup>*\<^sup>* (phase_of l c) (phase_of l' c))"
  using assms(2,3)
proof (induction es arbitrary: l)
  case Nil
  then show ?case by simp
next
  case (Cons e es)
  then obtain l1 where l1: "loop_step cfg e l = Some l1" "run (loop_step cfg) es l1 = Some l'"
    by (auto split: option.split_asm)
  have f: "follows l l1" by (rule step_follows [OF assms(1) Cons.prems(1) l1(1)])
  then have "life\<^sup>*\<^sup>* (phase_of l c) (phase_of l1 c)" for c
    unfolding follows_def by (metis r_into_rtranclp rtranclp.rtrancl_refl)
  moreover have "sessions_ok l' \<and> (\<forall>c. life\<^sup>*\<^sup>* (phase_of l1 c) (phase_of l' c))"
    using Cons.IH [OF _ l1(2)] f by (simp add: follows_def)
  ultimately show ?case by (meson rtranclp_trans)
qed

lemma member_has_room: "sessions_ok l \<Longrightarrow> phase_of l c = Member \<Longrightarrow> PRoom (Payloads (core l) c) \<noteq> None"
  by (auto simp: sessions_ok_def phase_of_def active_def live_def split: option.split_asm pipe.split_asm if_splits)

lemma sessions_start: "sessions_ok (loop_start db w rooms)" "phase_of (loop_start db w rooms) c = Fresh"
  by (simp_all add: sessions_ok_def loop_start_def active_def phase_of_def)

end
