(* ===== verification/TestClient.thy ===== *)
theory TestClient
  imports Idtcp
begin

text \<open>
  \<open>backend/testutils/idtcp.go\<close>: the client that the tests of the middlewares use. A
  goroutine reads the frames that the code under test writes to its connection and passes
  them on through a channel with room for one message; the test reads the channel and
  closes the client at the end. Both goroutines are state machines, an event is a step of
  one of them, and a step that blocks leaves the state alone. The lemmas show that messages
  arrive complete and in order, and when \<open>Close\<close> returns.
\<close>

section \<open>The client\<close>

record idMessage =
  im_instruction :: u16
  im_data :: bytes

text \<open>
  The goroutine waits for the connection, for a frame, or for room in the channel, or has
  returned (and has called \<open>wg.Done\<close>). The test runs, or is in \<open>Close\<close> before the
  \<open>select\<close>, in \<open>wg.Wait\<close>, or behind it.
\<close>

datatype reader = Accepting | Receiving | Sending idMessage | Returned

datatype closer = Running | Draining | Waiting | Finished

text \<open>
  \<open>tc_inbox\<close> are the chunks that were written and not yet read, \<open>tc_got\<close> the messages that
  \<open>Read\<close> has returned, \<open>tc_failed\<close> whether a \<open>Read\<close> has timed out.
\<close>

record test_client =
  tc_inbox :: "bytes list"
  tc_closed :: bool
  tc_ch :: "idMessage list"
  tc_reader :: reader
  tc_closer :: closer
  tc_got :: "idMessage list"
  tc_failed :: bool

text \<open>
  The outcomes of \<open>net.Listen\<close> and \<open>net.Dial\<close> are arguments. \<open>assert.Nil\<close> does not stop the
  test, so a nil listener is dereferenced and the type assertion meets a nil connection.
\<close>

definition NewTestClient :: "go_error option \<Rightarrow> go_error option \<Rightarrow> test_client option" where
  "NewTestClient listen_err dial_err =
     (if listen_err \<noteq> None then panic
      else if dial_err \<noteq> None then panic
      else Some \<lparr>tc_inbox = [], tc_closed = False, tc_ch = [], tc_reader = Accepting, tc_closer = Running,
        tc_got = [], tc_failed = False\<rparr>)"

text \<open>
  A step of the goroutine. A read with no complete frame waits, and fails once the other end
  is closed.
\<close>

definition reader_step :: "test_client \<Rightarrow> test_client option" where
  "reader_step st =
     (case tc_reader st of
        Receiving \<Rightarrow>
          (case Conn_Read (tc_inbox st) of
             None \<Rightarrow> panic
           | Some (Inl err, rest) \<Rightarrow>
               Some (if tc_closed st then st\<lparr>tc_inbox := rest, tc_reader := Returned\<rparr> else st)
           | Some (Inr (n, instruction, data), rest) \<Rightarrow>
               Some (st\<lparr>tc_inbox := rest,
                 tc_reader := Sending \<lparr>im_instruction = instruction, im_data = data\<rparr>\<rparr>))
      | Sending msg \<Rightarrow>
          Some (if length (tc_ch st) < 1 then st\<lparr>tc_ch := tc_ch st @ [msg], tc_reader := Receiving\<rparr> else st)
      | _ \<Rightarrow> Some st)"

text \<open>\<open>Read\<close>: the message, or nothing while it waits.\<close>

definition TestClient_Read :: "test_client \<Rightarrow> idMessage option \<times> test_client" where
  "TestClient_Read st =
     (case tc_ch st of
        [] \<Rightarrow> (None, st)
      | msg # msgs \<Rightarrow> (Some msg, st\<lparr>tc_ch := msgs, tc_got := tc_got st @ [msg]\<rparr>))"

text \<open>The steps of \<open>Close\<close>.\<close>

definition TestClient_Close :: "test_client \<Rightarrow> test_client" where
  "TestClient_Close st =
     (case tc_closer st of
        Running \<Rightarrow> st\<lparr>tc_closed := True, tc_closer := Draining\<rparr>
      | Draining \<Rightarrow> st\<lparr>tc_ch := tl (tc_ch st), tc_closer := Waiting\<rparr>
      | Waiting \<Rightarrow> if tc_reader st = Returned then st\<lparr>tc_closer := Finished\<rparr> else st
      | Finished \<Rightarrow> st)"

text \<open>
  Events: the accept call returns, the code under test writes a frame, the goroutine makes a
  step, the test reads, the timer of a read fires, the test makes a step of \<open>Close\<close>. The
  test does one thing after the other, so nothing is read or written once it is in \<open>Close\<close>.
\<close>

datatype client_event =
    TAccept "go_error option"
  | TWrite u16 bytes
  | TReader
  | TRead
  | TTimeout
  | TClose

fun tc_step :: "client_event \<Rightarrow> test_client \<Rightarrow> test_client option" where
  "tc_step (TAccept err) st =
     (if tc_reader st = Accepting then (if err = None then Some (st\<lparr>tc_reader := Receiving\<rparr>) else panic)
      else Some st)"
| "tc_step (TWrite instruction data) st =
     Some (if tc_closer st = Running \<and> length data \<le> 65531
       then st\<lparr>tc_inbox := tc_inbox st @ [frame instruction data]\<rparr> else st)"
| "tc_step TReader st = reader_step st"
| "tc_step TRead st = Some (if tc_closer st = Running then snd (TestClient_Read st) else st)"
| "tc_step TTimeout st = Some (if tc_closer st = Running then st\<lparr>tc_failed := True\<rparr> else st)"
| "tc_step TClose st = Some (TestClient_Close st)"

section \<open>The messages on their way\<close>

definition msg_frame :: "idMessage \<Rightarrow> bytes" where
  "msg_frame msg = frame (im_instruction msg) (im_data msg)"

definition msg_fits :: "idMessage \<Rightarrow> bool" where
  "msg_fits msg \<longleftrightarrow> length (im_data msg) \<le> 65531"

text \<open>The complete frames at the front of a stream.\<close>

lemma read_frame_rest: "read_frame bs = Some (Inr m, rest) \<Longrightarrow> length rest < length bs"
  by (auto simp: read_frame_def Let_def split: if_splits)

function frames_of :: "bytes \<Rightarrow> idMessage list" where
  "frames_of bs =
     (case read_frame bs of
        Some (Inr (n, instruction, data), rest) \<Rightarrow>
          \<lparr>im_instruction = instruction, im_data = data\<rparr> # frames_of rest
      | _ \<Rightarrow> [])"
  by pat_completeness auto
termination
  by (relation "measure length") (auto dest: read_frame_rest)

declare frames_of.simps [simp del]

lemma frames_of_empty [simp]: "frames_of [] = []"
  by (simp add: frames_of.simps [of "[]"] read_frame_def)

lemma frames_of_frame: "msg_fits m \<Longrightarrow> frames_of (msg_frame m @ rest) = m # frames_of rest"
  using read_frame_frame [of "im_data m" "im_instruction m" rest]
  by (simp add: frames_of.simps [of "frame (im_instruction m) (im_data m) @ rest"] msg_frame_def msg_fits_def fits_frame_def)

lemma frames_of_frames: "list_all msg_fits ms \<Longrightarrow> frames_of (concat (map msg_frame ms)) = ms"
  by (induction ms) (simp_all add: frames_of_frame)

fun in_hand :: "reader \<Rightarrow> idMessage list" where
  "in_hand (Sending msg) = [msg]"
| "in_hand _ = []"

definition pending :: "test_client \<Rightarrow> idMessage list" where
  "pending st = frames_of (concat (tc_inbox st))"

definition unread :: "test_client \<Rightarrow> idMessage list" where
  "unread st = tc_ch st @ in_hand (tc_reader st) @ pending st"

text \<open>
  The invariant: the inbox holds complete frames, the channel at most one message, and the
  goroutine returns only after the close and the last frame.
\<close>

definition tc_ok :: "test_client \<Rightarrow> bool" where
  "tc_ok st \<longleftrightarrow>
     (\<exists>ms. list_all msg_fits ms \<and> concat (tc_inbox st) = concat (map msg_frame ms)) \<and>
     length (tc_ch st) \<le> 1 \<and> (tc_closed st \<longleftrightarrow> tc_closer st \<noteq> Running) \<and>
     (tc_reader st = Returned \<longrightarrow> tc_closed st \<and> pending st = [])"

lemma tc_okE:
  assumes "tc_ok st"
  obtains ms where "list_all msg_fits ms" "concat (tc_inbox st) = concat (map msg_frame ms)" "pending st = ms"
  using assms frames_of_frames by (auto simp: tc_ok_def pending_def)

text \<open>What the next read of the goroutine gives.\<close>

lemma next_read:
  assumes "tc_ok st"
  shows "case pending st of
      [] \<Rightarrow> \<exists>err rest. Conn_Read (tc_inbox st) = Some (Inl err, rest) \<and> concat rest = []
    | m # ms \<Rightarrow> \<exists>n rest. Conn_Read (tc_inbox st) = Some (Inr (n, im_instruction m, im_data m), rest) \<and>
        concat rest = concat (map msg_frame ms) \<and> frames_of (concat rest) = ms \<and> list_all msg_fits ms"
proof -
  note spec = Conn_Read_read_frame [of "tc_inbox st"]
  obtain ms where ms: "list_all msg_fits ms" "concat (tc_inbox st) = concat (map msg_frame ms)" "pending st = ms"
    using assms by (rule tc_okE)
  show ?thesis
  proof (cases ms)
    case Nil
    then have "read_frame (concat (tc_inbox st)) = Some (Inl ErrEOF, [])" unfolding ms(2) Nil by (simp add: read_frame_def)
    then show ?thesis using spec ms(3) Nil by auto
  next
    case (Cons m ms')
    then have "read_frame (concat (tc_inbox st)) =
        Some (Inr (int (length (im_data m)) + 4, im_instruction m, im_data m), concat (map msg_frame ms'))"
      using ms(1,2) by (simp add: msg_frame_def msg_fits_def fits_frame_def read_frame_frame)
    then show ?thesis using spec ms Cons frames_of_frames [of ms'] by auto
  qed
qed

section \<open>Both goroutines keep the invariant\<close>

lemma start_ok: "NewTestClient None None = Some st \<Longrightarrow> tc_ok st"
  by (auto simp: NewTestClient_def tc_ok_def intro: exI [of _ "[]"])

text \<open>A step of the goroutine moves messages along and loses none.\<close>

lemma reader_step_spec:
  assumes "tc_ok st"
  shows "\<exists>st'. reader_step st = Some st' \<and> tc_ok st' \<and> unread st' = unread st \<and>
    tc_closer st' = tc_closer st \<and> tc_got st' = tc_got st"
proof (cases "tc_reader st")
  case Receiving
  show ?thesis
  proof (cases "pending st")
    case Nil
    then obtain err rest where r: "Conn_Read (tc_inbox st) = Some (Inl err, rest)" "concat rest = []"
      using next_read [OF assms] by auto
    let ?st = "st\<lparr>tc_inbox := rest, tc_reader := Returned\<rparr>"
    have "pending ?st = []" unfolding pending_def using r(2) by (simp del: concat_eq_Nil_conv)
    moreover from this have "tc_ok ?st" if "tc_closed st"
      using assms r(2) that unfolding tc_ok_def by (auto intro: exI [of _ "[]"])
    ultimately show ?thesis
      using Nil Receiving assms r(1) by (auto simp: reader_step_def unread_def)
  next
    case (Cons m ms)
    then obtain n rest where r: "Conn_Read (tc_inbox st) = Some (Inr (n, im_instruction m, im_data m), rest)"
      "concat rest = concat (map msg_frame ms)" "frames_of (concat rest) = ms" "list_all msg_fits ms"
      using next_read [OF assms] by auto
    then have "reader_step st = Some (st\<lparr>tc_inbox := rest, tc_reader := Sending m\<rparr>)"
      using Receiving by (simp add: reader_step_def)
    moreover have "tc_ok (st\<lparr>tc_inbox := rest, tc_reader := Sending m\<rparr>)"
      using assms r(2,4) unfolding tc_ok_def by auto
    ultimately show ?thesis using Receiving Cons r(3) by (simp add: unread_def pending_def)
  qed
qed (use assms in \<open>auto simp: reader_step_def tc_ok_def unread_def pending_def\<close>)

lemma tc_keeps:
  assumes "tc_ok st" "tc_step e st = Some st'"
  shows "tc_ok st'"
proof (cases e)
  case (TWrite i d)
  obtain ms where ms: "list_all msg_fits ms" "concat (tc_inbox st) = concat (map msg_frame ms)"
    using assms(1) by (rule tc_okE)
  have new: "\<exists>ms'. list_all msg_fits ms' \<and> concat (tc_inbox st @ [frame i d]) = concat (map msg_frame ms')"
    if "length d \<le> 65531"
    using ms that
    by (intro exI [of _ "ms @ [\<lparr>im_instruction = i, im_data = d\<rparr>]"]) (simp add: msg_fits_def msg_frame_def)
  show ?thesis
    using assms TWrite new by (auto simp: tc_ok_def pending_def split: if_splits)
next
  case TReader
  then show ?thesis using assms reader_step_spec [OF assms(1)] by auto
qed (use assms in \<open>auto simp: tc_ok_def TestClient_Read_def TestClient_Close_def pending_def
      split: if_splits list.splits closer.splits\<close>)

lemma step_returns: "tc_ok st \<Longrightarrow> (\<And>err. e \<noteq> TAccept (Some err)) \<Longrightarrow> \<exists>st'. tc_step e st = Some st' \<and> tc_ok st'"
proof -
  assume ok: "tc_ok st" and e: "\<And>err. e \<noteq> TAccept (Some err)"
  have "\<exists>st'. tc_step e st = Some st'"
    using e reader_step_spec [OF ok] by (cases e) auto
  then show ?thesis using tc_keeps [OF ok] by blast
qed

interpretation test_client_machine: invariant_machine
  "\<lambda>st. NewTestClient None None = Some st" tc_step "\<lambda>e. \<forall>err. e \<noteq> TAccept (Some err)" tc_ok
  by unfold_locales (auto intro: start_ok step_returns)

section \<open>Messages arrive in order\<close>

fun written :: "client_event list \<Rightarrow> idMessage list" where
  "written [] = []"
| "written (TWrite i d # es) =
     (if length d \<le> 65531 then [\<lparr>im_instruction = i, im_data = d\<rparr>] else []) @ written es"
| "written (_ # es) = written es"

lemma step_delivers:
  assumes ok: "tc_ok st" and running: "tc_closer st = Running" "e \<noteq> TClose" and step: "tc_step e st = Some st'"
  shows "tc_got st' @ unread st' = (tc_got st @ unread st) @ written [e] \<and> tc_closer st' = Running"
proof (cases e)
  case (TWrite i d)
  obtain ms where ms: "list_all msg_fits ms" "concat (tc_inbox st) = concat (map msg_frame ms)" "pending st = ms"
    using ok by (rule tc_okE)
  have "frames_of (concat (tc_inbox st @ [frame i d])) = ms @ [\<lparr>im_instruction = i, im_data = d\<rparr>]"
    if "length d \<le> 65531"
    using frames_of_frames [of "ms @ [\<lparr>im_instruction = i, im_data = d\<rparr>]"] ms that
    by (simp add: msg_fits_def msg_frame_def)
  then show ?thesis using step running ms(3) TWrite by (auto simp: unread_def pending_def)
next
  case TReader
  then show ?thesis using step running reader_step_spec [OF ok] by auto
qed (use step running in \<open>auto simp: unread_def pending_def TestClient_Read_def split: if_splits list.splits\<close>)

lemma run_delivers:
  assumes "tc_ok st" "tc_closer st = Running" "TClose \<notin> set es" "run tc_step es st = Some st'"
  shows "tc_got st' @ unread st' = (tc_got st @ unread st) @ written es \<and> tc_closer st' = Running \<and> tc_ok st'"
  using assms
proof (induction es arbitrary: st)
  case Nil
  then show ?case by simp
next
  case (Cons e es)
  then obtain st1 where st1: "tc_step e st = Some st1" "run tc_step es st1 = Some st'"
    by (auto split: option.split_asm)
  have "written (e # es) = written [e] @ written es" by (cases e) simp_all
  moreover have "tc_got st1 @ unread st1 = (tc_got st @ unread st) @ written [e]" "tc_closer st1 = Running"
    using step_delivers [OF Cons.prems(1,2) _ st1(1)] Cons.prems(3) by auto
  ultimately show ?case
    using Cons.IH [OF tc_keeps [OF Cons.prems(1) st1(1)] _ _ st1(2)] Cons.prems(3) by simp
qed

section \<open>How Close ends\<close>

text \<open>How often the two goroutines can still change the state, once the client is closed.\<close>

fun closer_fuel :: "closer \<Rightarrow> nat" where
  "closer_fuel Running = 3" | "closer_fuel Draining = 2" | "closer_fuel Waiting = 1" | "closer_fuel Finished = 0"

fun reader_fuel :: "reader \<Rightarrow> nat" where
  "reader_fuel Accepting = 2" | "reader_fuel Receiving = 1" | "reader_fuel (Sending m) = 2" | "reader_fuel Returned = 0"

definition close_fuel :: "test_client \<Rightarrow> nat" where
  "close_fuel st = closer_fuel (tc_closer st) + reader_fuel (tc_reader st) + 2 * length (pending st)"

fun moves :: "client_event list \<Rightarrow> test_client \<Rightarrow> nat" where
  "moves [] st = 0"
| "moves (e # es) st =
     (case tc_step e st of
        None \<Rightarrow> 0
      | Some st' \<Rightarrow> (if st' = st then 0 else 1) + moves es st')"

lemma reader_step_fuel:
  assumes "tc_ok st" "reader_step st = Some st'"
  shows "st' = st \<or> close_fuel st' < close_fuel st"
proof (cases "tc_reader st")
  case Receiving
  then show ?thesis
    using assms(2) next_read [OF assms(1)]
    by (cases "pending st") (auto simp: reader_step_def close_fuel_def pending_def split: if_splits simp del: concat_eq_Nil_conv)
qed (use assms(2) in \<open>auto simp: reader_step_def close_fuel_def pending_def\<close>)

lemma closing_step:
  assumes "tc_ok st" "tc_closer st \<noteq> Running" "tc_step e st = Some st'"
  shows "st' = st \<or> close_fuel st' < close_fuel st" "tc_closer st' \<noteq> Running"
proof -
  have "(st' = st \<or> close_fuel st' < close_fuel st) \<and> tc_closer st' \<noteq> Running"
  proof (cases e)
    case TReader
    then show ?thesis using assms reader_step_fuel [OF assms(1)] reader_step_spec [OF assms(1)] by auto
  next
    case TClose
    then show ?thesis using assms
      by (cases "tc_closer st") (auto simp: TestClient_Close_def close_fuel_def pending_def split: if_splits)
  qed (use assms in \<open>auto simp: close_fuel_def pending_def split: if_splits\<close>)
  then show "st' = st \<or> close_fuel st' < close_fuel st" "tc_closer st' \<noteq> Running" by blast+
qed

lemma moves_bound: "tc_ok st \<Longrightarrow> tc_closer st \<noteq> Running \<Longrightarrow> moves es st \<le> close_fuel st"
proof (induction es arbitrary: st)
  case Nil
  then show ?case by simp
next
  case (Cons e es)
  show ?case
  proof (cases "tc_step e st")
    case None
    then show ?thesis by simp
  next
    case (Some st')
    then show ?thesis
      using closing_step [OF Cons.prems Some] Cons.IH [of st'] tc_keeps [OF Cons.prems(1) Some] by auto
  qed
qed

text \<open>The channel and the one message that \<open>Close\<close> takes away hold two; a third one stays.\<close>

definition piled_up :: "test_client \<Rightarrow> bool" where
  "piled_up st \<longleftrightarrow>
     tc_closer st = Draining \<and> 3 \<le> length (unread st) \<or> tc_closer st = Waiting \<and> 2 \<le> length (unread st)"

lemma piled_up_step:
  assumes "tc_ok st" "piled_up st" "tc_step e st = Some st'"
  shows "piled_up st'"
proof (cases e)
  case TReader
  then show ?thesis using assms reader_step_spec [OF assms(1)] by (auto simp: piled_up_def)
next
  case TClose
  have "tc_reader st \<noteq> Returned" if "tc_closer st = Waiting"
    using assms(1,2) that by (auto simp: piled_up_def tc_ok_def unread_def)
  then show ?thesis
    using assms TClose by (auto simp: piled_up_def TestClient_Close_def unread_def pending_def)
qed (use assms in \<open>auto simp: piled_up_def unread_def pending_def split: if_splits\<close>)

lemma few_step:
  assumes "tc_ok st" "tc_closer st \<noteq> Running" "length (unread st) \<le> 1" "tc_step e st = Some st'"
  shows "length (unread st') \<le> 1"
proof (cases e)
  case TReader
  then show ?thesis using assms reader_step_spec [OF assms(1)] by auto
qed (use assms in \<open>auto simp: unread_def pending_def TestClient_Close_def split: if_splits closer.splits\<close>)

text \<open>A state that neither goroutine can change.\<close>

definition blocked :: "test_client \<Rightarrow> bool" where
  "blocked st \<longleftrightarrow>
     tc_step (TAccept None) st = Some st \<and> tc_step TReader st = Some st \<and> tc_step TClose st = Some st"

lemma blocked_reader:
  assumes "tc_ok st" "blocked st" "tc_closed st"
  shows "tc_reader st = Returned \<or> (\<exists>m. tc_reader st = Sending m \<and> tc_ch st \<noteq> [])"
proof -
  have r: "map_option tc_reader (reader_step st) = Some (tc_reader st)"
    "map_option tc_reader (tc_step (TAccept None) st) = Some (tc_reader st)"
    using assms(2) by (simp_all add: blocked_def)
  show ?thesis
  proof (cases "tc_reader st")
    case Receiving
    then show ?thesis
      using r(1) assms(3) next_read [OF assms(1)]
      by (cases "pending st") (auto simp: reader_step_def)
  qed (use r in \<open>auto simp: reader_step_def split: if_splits\<close>)
qed

lemma blocked_closer: "blocked st \<Longrightarrow> tc_closer st = Finished \<or> tc_closer st = Waiting \<and> tc_reader st \<noteq> Returned"
proof -
  assume "blocked st"
  then have "tc_closer (TestClient_Close st) = tc_closer st" by (simp add: blocked_def)
  then show ?thesis by (cases "tc_closer st") (auto simp: TestClient_Close_def split: if_splits)
qed

lemma few_blocked:
  assumes "tc_ok st" "tc_closer st \<noteq> Running" "length (unread st) \<le> 1" "blocked st"
  shows "tc_closer st = Finished"
proof -
  have "tc_closed st" using assms(1,2) by (simp add: tc_ok_def)
  from blocked_reader [OF assms(1,4) this] have "tc_reader st = Returned"
    using assms(3) by (cases "tc_ch st") (auto simp: unread_def)
  then show ?thesis using blocked_closer [OF assms(4)] by auto
qed

lemma run_closing:
  assumes "tc_ok st" "tc_closer st \<noteq> Running" "run tc_step es st = Some st'"
  shows "tc_ok st' \<and> tc_closer st' \<noteq> Running \<and> (piled_up st \<longrightarrow> piled_up st') \<and>
    (length (unread st) \<le> 1 \<longrightarrow> length (unread st') \<le> 1)"
  using assms
proof (induction es arbitrary: st)
  case Nil
  then show ?case by simp
next
  case (Cons e es)
  then obtain st1 where st1: "tc_step e st = Some st1" "run tc_step es st1 = Some st'"
    by (auto split: option.split_asm)
  show ?case
    using Cons.IH [OF tc_keeps [OF Cons.prems(1) st1(1)] closing_step(2) [OF Cons.prems(1,2) st1(1)] st1(2)]
      piled_up_step [OF Cons.prems(1) _ st1(1)] few_step [OF Cons.prems(1,2) _ st1(1)] by blast
qed

section \<open>Properties\<close>

text \<open>
  Claim C19. A test client that is closed stops, and returns unless messages pile up: every
  message that was written has been read or is on its way, in order. Once \<open>Close\<close> is called
  no schedule changes the state more often than a bound; with at most one message unread
  every schedule ends only when \<open>Close\<close> has returned; with three or more unread no schedule
  ever makes it return, as the goroutine waits for room in the channel for ever.
\<close>

theorem Close_returns_unless_messages_pile_up:
  assumes "NewTestClient None None = Some start" "run tc_step es start = Some st" "TClose \<notin> set es"
    and "run tc_step (TClose # es') st = Some st'"
  shows "tc_got st @ unread st = written es \<and>
    moves es' (TestClient_Close st) \<le> 4 + 2 * length (unread st) \<and>
    (3 \<le> length (unread st) \<longrightarrow> tc_closer st' \<noteq> Finished) \<and>
    (length (unread st) \<le> 1 \<longrightarrow> blocked st' \<longrightarrow> tc_closer st' = Finished)"
proof -
  have start: "tc_closer start = Running" "tc_got start @ unread start = []"
    using assms(1) by (auto simp: NewTestClient_def unread_def pending_def)
  have st: "tc_got st @ unread st = written es" "tc_closer st = Running" "tc_ok st"
    using run_delivers [OF start_ok [OF assms(1)] start(1) assms(3,2)] start(2) by simp_all
  let ?st = "TestClient_Close st"
  have c: "tc_closer ?st = Draining" "unread ?st = unread st" "tc_step TClose st = Some ?st"
    using st(2) by (simp_all add: TestClient_Close_def unread_def pending_def)
  note ok = tc_keeps [OF st(3) c(3)]
  have "run tc_step es' ?st = Some st'" using assms(4) by simp
  note r = run_closing [OF ok _ this]
  have "close_fuel ?st \<le> 4 + 2 * length (unread ?st)"
    using c(1) by (cases "tc_reader ?st") (auto simp: close_fuel_def unread_def)
  then have "moves es' ?st \<le> 4 + 2 * length (unread st)"
    using moves_bound [OF ok, of es'] c(1,2) by simp
  moreover have "3 \<le> length (unread st) \<longrightarrow> tc_closer st' \<noteq> Finished"
    using r c by (auto simp: piled_up_def)
  moreover have "length (unread st) \<le> 1 \<longrightarrow> blocked st' \<longrightarrow> tc_closer st' = Finished"
    using r c few_blocked by auto
  ultimately show ?thesis using st(1) by blast
qed

text \<open>Only a read of the test adds to what it has got.\<close>

lemma run_got: "TRead \<notin> set es \<Longrightarrow> run tc_step es st = Some st' \<Longrightarrow> tc_got st' = tc_got st"
proof (induction es arbitrary: st)
  case Nil
  then show ?case by simp
next
  case (Cons e es)
  then obtain st1 where st1: "tc_step e st = Some st1" "run tc_step es st1 = Some st'"
    by (auto split: option.split_asm)
  have "tc_got st1 = tc_got st"
    using st1(1) Cons.prems(1)
    by (cases e) (auto simp: reader_step_def TestClient_Close_def
        split: if_splits option.split_asm reader.split_asm closer.split prod.split_asm sum.split_asm)
  then show ?case using Cons.IH [OF _ st1(2)] Cons.prems(1) by simp
qed

text \<open>Three empty frames are written and none is read.\<close>

definition demo_client :: test_client where
  "demo_client =
     \<lparr>tc_inbox = [], tc_closed = False, tc_ch = [], tc_reader = Accepting, tc_closer = Running, tc_got = [], tc_failed = False\<rparr>"

theorem Close_returns_unless_messages_pile_up_witness:
  "\<exists>st'. run tc_step ([TAccept None, TWrite 1 [], TReader, TWrite 2 [], TWrite 3 [], TReader] @
      TClose # [TReader, TClose, TReader, TReader, TReader, TClose]) demo_client = Some st' \<and>
    tc_closer st' \<noteq> Finished"
proof -
  let ?es = "[TAccept None, TWrite 1 [], TReader, TWrite 2 [], TWrite 3 [], TReader]"
  let ?es' = "[TReader, TClose, TReader, TReader, TReader, TClose]"
  have start: "NewTestClient None None = Some demo_client" by (simp add: NewTestClient_def demo_client_def)
  obtain st where st: "run tc_step ?es demo_client = Some st"
    using test_client_machine.run_safe [OF start, of ?es] by auto
  have ok: "tc_ok st" using test_client_machine.run_inv [OF start_ok [OF start] _ st] by simp
  obtain st' where st': "run tc_step (TClose # ?es') st = Some st'"
    using test_client_machine.run_from_inv [OF ok, of "TClose # ?es'"] by auto
  have "tc_got st = []" using run_got [OF _ st] by (simp add: demo_client_def)
  then have "tc_closer st' \<noteq> Finished"
    using Close_returns_unless_messages_pile_up [OF start st _ st'] by simp
  then show ?thesis using st st' unfolding run_append by simp
qed

end
