(* ===== verification/Spec2Isabelle.thy ===== *)
theory Spec2Isabelle
  imports Startup Sessions TestClient
begin

text \<open>
  A verification development for the Gobang server, the Go program under \<open>src/backend\<close>: a
  TCP server that authenticates users against a SQLite database, puts them into rooms and
  lets two players of a room play five-in-a-row on a board of 15 by 15 fields, and a UDP
  service that answers queries about the rooms. This theory holds the properties of the
  whole server; the others hold one component each.

  \<^bold>\<open>The program and the theories.\<close> A connection sends frames (\<open>Idtcp\<close>: a 16-bit length, a
  16-bit instruction, the payload). The accept loop and one request pipe per connection
  (\<open>ServerLoop\<close>) hand every frame to a chain of middlewares (\<open>Pipeline\<close>): fatal errors
  (\<open>MdwFatal\<close>), users (\<open>MdwUser\<close>, with the password hashes of \<open>Encryption\<close>), rooms
  (\<open>MdwRoom\<close>), and behind them the endpoint table (\<open>Endpoints\<close>), which works on the rooms
  of the game package (\<open>GameRoom\<close>) and their boards (\<open>Chess\<close>). Payloads are read and
  written by the two halves of the serializer (\<open>Serializer\<close>, the cursor API; \<open>Marshal\<close>,
  the reflective one). \<open>Udp\<close> is the query service, \<open>ServerState\<close> the state that the
  handlers share, \<open>Prelude\<close> the machine integers, errors and the pattern of a machine
  with an invariant that all theories use.

  \<^item> \<open>Chess\<close> (\<open>game/chess.go\<close>, \<open>chess_test.go\<close>): the record \<open>chess\<close>, one definition per method,
    array accesses checked. Lemmas: Stone refines a game that is a list of moves, the win
    check is exact, no run of operations panics.
  \<^item> \<open>GameRoom\<close> (\<open>game/room.go\<close>): the two seats, the ready handshake, requests to take a
    move back, over any type of players. Lemmas: the invariant of a room, the handshake.
  \<^item> \<open>Serializer\<close> and \<open>Marshal\<close> (\<open>utils/serializer.go\<close>, \<open>type.go\<close>, \<open>serializer_test.go\<close>).
    The contract of a field's writer and reader, and of a message, are the locales
    \<open>field_codec\<close> and \<open>wire_struct\<close>, interpreted for every field and every message.
  \<^item> \<open>Idtcp\<close> (\<open>idtcp/idtcp.go\<close>): the connection over a stream of chunks.
  \<^item> \<open>Pipeline\<close> (\<open>idtcp/middleware.go\<close>): the contexts and the contract of a middleware,
    the locale \<open>contract_middleware\<close> that every middleware interprets in \<open>ServerLoop\<close>.
  \<^item> \<open>MdwFatal\<close>, \<open>MdwUser\<close>, \<open>MdwRoom\<close> (the packages under \<open>middlewares\<close>), \<open>Encryption\<close>
    (\<open>utils/encryption.go\<close> and the hasher of \<open>mdwuser/database.go\<close>), \<open>Endpoints\<close>
    (\<open>server/distribute.go\<close>, \<open>server/send.go\<close>), \<open>Udp\<close> (\<open>server/server.go\<close>, \<open>server/udp.go\<close>,
    \<open>udp/server.go\<close>), \<open>ServerLoop\<close> (\<open>idtcp/server.go\<close>), \<open>Startup\<close> (\<open>config/config.go\<close>,
    \<open>main.go\<close>).
  \<^item> \<open>TestClient\<close> (\<open>testutils/idtcp.go\<close>): the client of the tests, two goroutines around a
    channel; when closing it returns.
  \<^item> \<open>History\<close> has no code of its own: it derives what every run of the server keeps. A law of
    the server (the locales \<open>chain_law\<close> and \<open>server_law\<close>) is a predicate that each elementary
    change of the state keeps; the interpretations are the history of passwords, log and
    rooms, the consistency of users and seats, abandoned users, and the connection set.
  \<^item> \<open>Sessions\<close> has no code of its own either: the abstract life of a connection (the relation
    \<open>life\<close> on phases), and the proof that every step of the server moves each connection
    along it or leaves it where it is.

  \<^bold>\<open>How the state corresponds.\<close> A Go value is a record or a word of its width; a dictionary
  or a pointer that the code compares is an index (a room is its position in the list of
  rooms, a connection its number, a user object carries a number of its own). A call that
  may panic returns an option, and None is the panic, which ends the process as no code
  recovers. An error is a value of \<open>go_error\<close>; the texts of some errors leave out
  the numbers that the code formats into them. Log lines are left out. The world (\<open>Idtcp\<close>)
  holds the closed connections, the log of frames that were sent, which writes fail, the
  clock and the random numbers; its future is fixed in advance and arbitrary. A write that
  fails sends nothing, and a write never blocks. Closing everything leaves the listener
  alone, so accepts may still follow; this only adds runs.

  \<^bold>\<open>Concurrency.\<close> The goroutines of the TCP server are events of a step function
  (\<open>loop_step\<close>): the pipeline mutex makes each run of a chain one step, so the order of the
  events is the only freedom, and the properties hold for every order. A connection brings
  the whole stream its client will send. The query service reads the rooms without the
  mutex; the model takes each of its replies as one step on a given list of rooms.

  \<^bold>\<open>Parameters.\<close> The SQL driver, the UUID parser and the key derivation are the fields of
  \<open>external\<close>, functions on an arbitrary database; \<open>sql_laws\<close> states what the driver documents
  and \<open>map_external\<close> is an instance that satisfies it. The file system, YAML, the UUID
  generator, the addresses and the sockets are the fields of \<open>platform\<close>, with \<open>platform_ok\<close> and
  \<open>demo_platform\<close>. The digest of the legacy password function is an argument.

  \<^bold>\<open>Bounds.\<close> A stream is polite when each of its complete frames can be read and handled
  without a panic; \<open>polite\<close> recurses on the unread bytes. \<open>pipe_fuel\<close> counts two steps per byte
  of the stream, as every frame takes at least four bytes and two steps, and three steps to
  notice the end, to leave and to be removed. The buffer of the query service has 65536
  bytes, so a version of at most 255 bytes never reaches past it.

  \<^bold>\<open>What the properties show.\<close> Two groups of statements hold for whole runs. With polite
  clients the server never panics, keeps its invariant and ends every connection (total
  statements, by the contracts of the middlewares). With any clients, every run that does
  not panic keeps what \<open>History\<close> lists. The other properties are about one component each;
  some of them prove a defect of the code, and say so.

  \<^bold>\<open>Not modelled.\<close> The flag that names the configuration file, the wait groups, the log, the
  tests of the two inner middlewares, and the graphical client (\<open>src/frontend\<close>, C++). A user pointer that is nil inside the rooms (the user middleware
  never lets one pass) counts as a panic.
\<close>

section \<open>The first frames\<close>

text \<open>The first frame of a connection that has just been accepted reaches the chain.\<close>

lemma Conn_Read_frame:
  assumes "fits_frame data"
  shows "\<exists>n rest. Conn_Read [frame i data] = Some (Inr (n, i, data), rest)"
proof -
  have "map_option (\<lambda>(r, rest). (r, concat rest)) (Conn_Read [frame i data]) =
      Some (Inr (int (length data) + 4, i, data), [])"
    using Conn_Read_read_frame [of "[frame i data]"] read_frame_frame [OF assms, of i "[]"] by simp
  then show ?thesis by auto
qed

lemma accepted:
  assumes "accepting l"
  shows "\<exists>l1. loop_step cfg (EAccept stream) l = Some l1 \<and> pipes l1 (next_conn l) = Some (Reading stream) \<and>
    World (core l1) = World (core l) \<and> next_conn l1 = next_conn l + 1"
  using assms by (simp add: accept_round_def connect_chain Let_def report_error_def)

lemma first_frame:
  assumes "accepting l" "next_conn l \<notin> set (net_closed (World (core l)))" "fits_frame data"
  shows "\<exists>l' rest. run (loop_step cfg) [EAccept [frame i data], EPipe (next_conn l)] l = Some l' \<and>
    pipes l' (next_conn l) = Some (Holding i data rest)"
proof -
  obtain l1 where "loop_step cfg (EAccept [frame i data]) l = Some l1"
    "pipes l1 (next_conn l) = Some (Reading [frame i data])" "World (core l1) = World (core l)"
    using accepted [OF assms(1), of cfg "[frame i data]"] by blast
  moreover obtain n rest where "Conn_Read [frame i data] = Some (Inr (n, i, data), rest)"
    using Conn_Read_frame [OF assms(3)] by blast
  ultimately show ?thesis using assms(2) by (simp add: pipe_step_def)
qed

text \<open>The outermost middleware panics on a short report whatever is behind it.\<close>

lemma short_report_panics:
  assumes "pipes l c = Some (Holding (s_FatalError (fatal cfg)) data rest)" "\<not> report_fits data"
  shows "loop_step cfg (EPipe c) l = None"
proof -
  have "receiveFatalError c data w = None" for w
    using assms(2) by (auto simp: receiveFatalError_outcome report_fits_def)
  then show ?thesis
    using assms(1) by (simp add: pipe_step_def mdw_lists context_Next fatal_ProcessDistribute_def)
qed

section \<open>Concrete runs\<close>

lemma run_one: "step e s = Some s' \<Longrightarrow> run step [e] s = Some s'"
  by simp

lemma polite_empty: "polite []"
  by (simp add: polite.simps [of "[]"] read_frame_def)

lemma polite_frame:
  "fits_frame data \<Longrightarrow> safe_frame i data \<Longrightarrow> polite rest \<Longrightarrow> polite (frame i data @ rest)"
  by (simp add: polite.simps [of "frame i data @ rest"] read_frame_frame)

lemma polite_join: "polite (frame S_JoinRoom_op (join_bytes (lit ''foo'') (lit ''bar'')) @ [])"
  by (rule polite_frame)
    (simp_all add: fits_frame_def safe_frame_def S_JoinRoom_op_def S_FatalError_op_def S_UserInfo_op_def
      join_bytes_def enc8_def enc16_def polite_empty)

lemma quiet_ok: "hashes_ok (id Map.empty)" "rand_ok quiet_world" "net_closed quiet_world = []"
    "hashes_ok Map.empty"
  by (simp_all add: hashes_ok_def rand_ok_def quiet_world_def)

text \<open>The configuration file of the demonstration platform before its first start.\<close>

definition demo_os :: "gostring \<rightharpoonup> bytes" where
  "demo_os = [lit ''config.yaml'' \<mapsto> []]"

lemma demo_start:
  "\<exists>cfg start. main_program demo_platform map_external (lit ''config.yaml'') demo_os Map.empty quiet_world =
    Some (cfg, start, lit ''gobang'')"
  unfolding demo_os_def by (rule demo_main)

lemma started_fields:
  assumes "started cfg stored db w start"
  shows "accepting start" "next_conn start = 0" "World (core start) = w" "pipes start = Map.empty"
    "s_FatalError (fatal cfg) = S_FatalError_op"
  using assms by (auto simp: started_def loop_start_def config_ok_def)

text \<open>A run from the start that main makes: the server laws along it.\<close>

lemma reached:
  assumes "started cfg stored db w start" "run (loop_step cfg) es start = Some l"
  shows "config_ok cfg stored" "members_ok (core l)" "books_ok l"
proof -
  show cfg: "config_ok cfg stored" using assms(1) by (simp add: started_def)
  show "members_ok (core l)"
    using membership.run_keeps [OF started_members [OF assms(1)] assms(2)] by simp
  show "books_ok l" using books_run [OF cfg] started_books [OF assms(1)] assms(2) by blast
qed

section \<open>Properties\<close>

text \<open>
  Claim C1. The server survives polite clients: from the start that main makes, with a
  driver that keeps its promises, readable stored hashes and a working random source, no
  interleaving of accepts, reads, requests and disconnects of any number of connections
  panics, as long as every client sends only complete frames, and reports and user-info
  requests whose strings fit their payload; the invariant of the server holds afterwards.
\<close>

theorem server_survives_polite_clients:
  assumes "main_program p e path os db w = Some (cfg, start, name)" "sql_laws e stored"
    and "hashes_ok (stored db)" "rand_ok w" "list_all polite_event es"
  shows "\<exists>l. run (loop_step cfg) es start = Some l \<and> loop_ok cfg stored l"
  by (rule server_machine.run_safe [OF started_good [OF main_started [OF assms(1,2)] assms(3,4)] assms(5)])

theorem server_survives_polite_clients_witness:
  "\<exists>cfg start l. main_program demo_platform map_external (lit ''config.yaml'') demo_os Map.empty quiet_world =
      Some (cfg, start, lit ''gobang'') \<and>
    run (loop_step cfg) [EAccept [frame S_JoinRoom_op (join_bytes (lit ''foo'') (lit ''bar''))],
      EPipe 0, EPipe 0, EPipe 0, EPipe 0] start = Some l"
proof -
  obtain cfg start where m: "main_program demo_platform map_external (lit ''config.yaml'') demo_os Map.empty quiet_world =
      Some (cfg, start, lit ''gobang'')" using demo_start by blast
  have "list_all polite_event [EAccept [frame S_JoinRoom_op (join_bytes (lit ''foo'') (lit ''bar''))],
      EPipe 0, EPipe 0, EPipe 0, EPipe 0]"
    using polite_join by simp
  from server_survives_polite_clients [OF m map_external_laws _ quiet_ok(2) this] quiet_ok(1) m
  show ?thesis by auto
qed

text \<open>
  Claim C2. Any client can stop the server before it has authenticated: whatever the
  configuration, the first connection kills the process with an empty fatal-error report,
  and with a frame whose length field is zero.
\<close>

theorem any_client_can_stop_the_server:
  assumes "main_program p e path os db w = Some (cfg, start, name)" "sql_laws e stored" "0 \<notin> set (net_closed w)"
  shows "run (loop_step cfg) [EAccept [frame S_FatalError_op []], EPipe 0, EPipe 0] start = None \<and>
    run (loop_step cfg) [EAccept [[0, 0]], EPipe 0] start = None"
proof
  note l = started_fields [OF main_started [OF assms(1,2)]]
  obtain l' rest where "run (loop_step cfg) [EAccept [frame S_FatalError_op []], EPipe 0] start = Some l'"
    "pipes l' 0 = Some (Holding S_FatalError_op [] rest)"
    using first_frame [of start "[]" cfg S_FatalError_op] l assms(3) by (auto simp: fits_frame_def)
  moreover from this have "loop_step cfg (EPipe 0) l' = None"
    using short_report_panics [of l' 0 cfg "[]" rest] l(5) by (simp add: report_fits_def)
  ultimately have "run (loop_step cfg) ([EAccept [frame S_FatalError_op []], EPipe 0] @ [EPipe 0]) start = None"
    by (simp only: run_append) simp
  then show "run (loop_step cfg) [EAccept [frame S_FatalError_op []], EPipe 0, EPipe 0] start = None" by simp
  have "read_frame [0, 0] = None" by code_simp
  then have "Conn_Read [[0, 0]] = None" using Conn_Read_read_frame [of "[[0, 0]]"] by simp
  moreover obtain l1 where "loop_step cfg (EAccept [[0, 0]]) start = Some l1" "pipes l1 0 = Some (Reading [[0, 0]])"
    "World (core l1) = w"
    using accepted [OF l(1), of cfg "[[0, 0]]"] l by auto
  ultimately show "run (loop_step cfg) [EAccept [[0, 0]], EPipe 0] start = None"
    using assms(3) by (simp add: pipe_step_def)
qed

theorem any_client_can_stop_the_server_witness:
  "\<exists>cfg start. main_program demo_platform map_external (lit ''config.yaml'') demo_os Map.empty quiet_world =
      Some (cfg, start, lit ''gobang'') \<and>
    run (loop_step cfg) [EAccept [frame S_FatalError_op []], EPipe 0, EPipe 0] start = None"
proof -
  obtain cfg start where m: "main_program demo_platform map_external (lit ''config.yaml'') demo_os Map.empty quiet_world =
      Some (cfg, start, lit ''gobang'')" using demo_start by blast
  from any_client_can_stop_the_server [OF m map_external_laws] m show ?thesis by (auto simp: quiet_ok(3))
qed

text \<open>
  Claim C3. Every connection ends: in every state that the server reaches with polite
  clients, a connection that has been accepted and whose client sends a finite stream is
  closed and its pipe is gone after enough steps of its own pipe (two per byte still to come
  and three more are enough), however the steps of the other connections, new accepts and
  closes are interleaved with them.
\<close>

theorem every_connection_ends:
  assumes "main_program p e path os db w = Some (cfg, start, name)" "sql_laws e stored"
    and "hashes_ok (stored db)" "rand_ok w"
    and "list_all polite_event es" "run (loop_step cfg) es start = Some l"
    and "c < next_conn l" "list_all polite_event es'" "pipe_fuel (pipes l c) \<le> count_list es' (EPipe c)"
  shows "\<exists>l'. run (loop_step cfg) es' l = Some l' \<and> pipes l' c = None \<and> c \<in> set (net_closed (World (core l')))"
proof -
  note st = main_started [OF assms(1,2)]
  have "loop_ok cfg stored l"
    using server_machine.run_safe [OF started_good [OF st assms(3,4)] assms(5)] assms(6) by auto
  from run_fuel [OF this assms(7,8)] obtain l' where l':
    "run (loop_step cfg) es' l = Some l'" "pipe_fuel (pipes l' c) = 0"
    using assms(9) by auto
  then have none: "pipes l' c = None" by (cases "pipes l' c" rule: pipe_fuel.cases) auto
  have "run (loop_step cfg) (es @ es') start = Some l'" using assms(6) l'(1) by (simp add: run_append)
  then have "books_ok l'" by (rule reached(3) [OF st])
  moreover have "c < next_conn l'" using run_next_conn [OF l'(1)] assms(7) by simp
  ultimately show ?thesis using none l'(1) by (auto simp: books_ok_def)
qed

theorem every_connection_ends_witness:
  "\<exists>cfg start l l'. main_program demo_platform map_external (lit ''config.yaml'') demo_os Map.empty quiet_world =
      Some (cfg, start, lit ''gobang'') \<and>
    run (loop_step cfg) [EAccept [[5, 0, 99]]] start = Some l \<and>
    run (loop_step cfg) (replicate 8 (EPipe 0)) l = Some l' \<and> 0 \<in> set (net_closed (World (core l')))"
proof -
  obtain cfg start where m: "main_program demo_platform map_external (lit ''config.yaml'') demo_os Map.empty quiet_world =
      Some (cfg, start, lit ''gobang'')" using demo_start by blast
  note st = started_fields [OF main_started [OF m map_external_laws]]
  obtain l where l: "loop_step cfg (EAccept [[5, 0, 99]]) start = Some l" "pipes l 0 = Some (Reading [[5, 0, 99]])"
    "next_conn l = 1"
    using accepted [OF st(1), of cfg "[[5, 0, 99]]"] st(2) by auto
  have "read_frame [5, 0, 99] = Some (Inl ErrEOF, [])" by code_simp
  then have pol: "polite [5, 0, 99]" by (simp add: polite.simps [of "[5, 0, 99]"])
  have run1: "run (loop_step cfg) [EAccept [[5, 0, 99]]] start = Some l" using l(1) by simp
  have "count_list (replicate n (EPipe 0)) (EPipe 0) = n" for n by (induction n) auto
  then have "\<exists>l'. run (loop_step cfg) (replicate 8 (EPipe 0)) l = Some l' \<and> pipes l' 0 = None \<and>
      0 \<in> set (net_closed (World (core l')))"
    by (intro every_connection_ends [OF m map_external_laws quiet_ok(1,2) _ run1])
      (simp_all add: pol l list_all_iff)
  then show ?thesis using m run1 by blast
qed

text \<open>
  Claim C7. The books of the server are right, whatever the clients send: the connection set
  holds exactly the connections whose pipes run, each once, every accepted connection
  outside it is closed, and after CloseAll every connection that was ever accepted is closed.
\<close>

theorem connections_are_accounted_for:
  assumes "main_program p e path os db w = Some (cfg, start, name)" "sql_laws e stored"
    and "run (loop_step cfg) es start = Some l"
  shows "set (connectionSet (core l)) = {c. pipes l c \<noteq> None} \<and> distinct (connectionSet (core l)) \<and>
    {c. c < next_conn l} \<subseteq> set (connectionSet (core l)) \<union> set (net_closed (World (core l))) \<and>
    (\<exists>l'. loop_step cfg ECloseAll l = Some l' \<and> {c. c < next_conn l} \<subseteq> set (net_closed (World (core l'))))"
proof -
  have "books_ok l" by (rule reached(3) [OF main_started [OF assms(1,2)] assms(3)])
  then show ?thesis by (auto simp: books_ok_def closed_all)
qed

theorem connections_are_accounted_for_witness:
  "\<exists>cfg start l. main_program demo_platform map_external (lit ''config.yaml'') demo_os Map.empty quiet_world =
      Some (cfg, start, lit ''gobang'') \<and>
    run (loop_step cfg) [EAccept [[5, 0, 99]]] start = Some l \<and> connectionSet (core l) = [0]"
proof -
  obtain cfg start where m: "main_program demo_platform map_external (lit ''config.yaml'') demo_os Map.empty quiet_world =
      Some (cfg, start, lit ''gobang'')" using demo_start by blast
  note st = main_started [OF m map_external_laws]
  obtain l where l: "loop_step cfg (EAccept [[5, 0, 99]]) start = Some l" "pipes l 0 = Some (Reading [[5, 0, 99]])"
    "pipes l = (pipes start)(0 \<mapsto> Reading [[5, 0, 99]])"
    using started_fields(1,2) [OF st] by (simp add: accept_round_def connect_chain Let_def)
  have "{c. pipes l c \<noteq> None} = {0}" using l(3) started_fields(4) [OF st] by auto
  moreover have "run (loop_step cfg) [EAccept [[5, 0, 99]]] start = Some l" using l(1) by simp
  moreover note connections_are_accounted_for [OF m map_external_laws this]
  ultimately have c: "set (connectionSet (core l)) = {0}" "distinct (connectionSet (core l))" by simp_all
  then have "length (connectionSet (core l)) = Suc 0" using distinct_card [OF c(2)] by simp
  then have "connectionSet (core l) = [0]" using c(1) by (cases "connectionSet (core l)") simp_all
  then show ?thesis using m l(1) by auto
qed

text \<open>
  Claim C8. The server refines the protocol of a connection: in every state that it reaches,
  whatever the clients send, one more step leaves the phase of each connection alone or moves
  it along the abstract life (accepted as a guest, then at most once a member, then closing,
  then ended); a member has entered a room, and no phase ever comes back.
\<close>

theorem connections_live_one_life:
  assumes "main_program p e path os db w = Some (cfg, start, name)" "sql_laws e stored"
    and "run (loop_step cfg) es start = Some l" "loop_step cfg ev l = Some l'"
  shows "(phase_of l' c = phase_of l c \<or> life (phase_of l c) (phase_of l' c)) \<and>
    life\<^sup>*\<^sup>* Fresh (phase_of l c) \<and> phase_of l c \<le> phase_of l' c \<and>
    (phase_of l' c = Member \<longrightarrow> PRoom (Payloads (core l') c) \<noteq> None)"
proof -
  note st = main_started [OF assms(1,2)]
  have cfg: "config_ok cfg stored" using st by (simp add: started_def)
  have "sessions_ok start" "phase_of start c = Fresh" using st sessions_start by (auto simp: started_def)
  with run_follows [OF cfg _ assms(3)] have l: "sessions_ok l" "life\<^sup>*\<^sup>* Fresh (phase_of l c)" by metis+
  have f: "follows l l'" by (rule step_follows [OF cfg l(1) assms(4)])
  then have step: "phase_of l' c = phase_of l c \<or> life (phase_of l c) (phase_of l' c)"
    by (simp add: follows_def)
  then have "life\<^sup>*\<^sup>* (phase_of l c) (phase_of l' c)" by auto
  then show ?thesis
    using step l(2) lives_grow member_has_room [of l' c] f by (auto simp: follows_def)
qed

theorem connections_live_one_life_witness:
  "\<exists>cfg start l l'. main_program demo_platform map_external (lit ''config.yaml'') demo_os Map.empty quiet_world =
      Some (cfg, start, lit ''gobang'') \<and>
    run (loop_step cfg) [EAccept [[5, 0, 99]]] start = Some l \<and> loop_step cfg (EPipe 0) l = Some l' \<and>
    phase_of l 0 = Guest \<and> phase_of l' 0 = Closing \<and> life (phase_of l 0) (phase_of l' 0)"
proof -
  obtain cfg start where m: "main_program demo_platform map_external (lit ''config.yaml'') demo_os Map.empty quiet_world =
      Some (cfg, start, lit ''gobang'')" using demo_start by blast
  note st = started_fields [OF main_started [OF m map_external_laws]]
  obtain l where l: "loop_step cfg (EAccept [[5, 0, 99]]) start = Some l" "pipes l 0 = Some (Reading [[5, 0, 99]])"
    "Payloads (core l) 0 = NewPayloads" "World (core l) = quiet_world"
    using accepted [OF st(1), of cfg "[[5, 0, 99]]"] st(1,2,3) by (auto simp: accept_round_def connect_chain Let_def)
  have run1: "run (loop_step cfg) [EAccept [[5, 0, 99]]] start = Some l" using l(1) by simp
  have "read_frame [5, 0, 99] = Some (Inl ErrEOF, [])" by code_simp
  then obtain rest where "Conn_Read [[5, 0, 99]] = Some (Inl ErrEOF, rest)"
    using Conn_Read_read_frame [of "[[5, 0, 99]]"] by auto
  then obtain l' where l': "loop_step cfg (EPipe 0) l = Some l'" "pipes l' 0 = Some Leaving"
    using l(2,4) by (auto simp: pipe_step_def quiet_ok(3))
  have phases: "phase_of l 0 = Guest" "phase_of l' 0 = Closing"
    using l(2,3) l'(2) by (simp_all add: phase_of_def NewPayloads_def user_NewPayload_def)
  then have "life (phase_of l 0) (phase_of l' 0)"
    using connections_live_one_life [OF m map_external_laws run1 l'(1), of 0] by simp
  then show ?thesis using m run1 l'(1) phases by (intro exI conjI)
qed

text \<open>
  Claim C4. What the server has it keeps, whatever the clients send and from any state: along
  every run that does not panic no stored password is changed or lost, the log of sent
  frames only grows, closed connections stay closed, and the rooms keep their number, names
  and limits.
\<close>

theorem history_only_grows:
  assumes "main_program p e path os db w = Some (cfg, start, name)" "sql_laws e stored"
    and "run (loop_step cfg) es l = Some l'"
  shows "stored (Db (core l)) \<subseteq>\<^sub>m stored (Db (core l')) \<and>
    (\<exists>log. net_out (World (core l')) = net_out (World (core l)) @ log) \<and>
    set (net_closed (World (core l))) \<subseteq> set (net_closed (World (core l'))) \<and>
    map (\<lambda>room. (Name room, MaxUsers room)) (Rooms (core l')) = map (\<lambda>room. (Name room, MaxUsers room)) (Rooms (core l))"
proof -
  have "config_ok cfg stored" using main_started [OF assms(1,2)] by (simp add: started_def)
  then have "grown cfg stored (core l) (core l)" by (auto simp: grown_def)
  from history.run_keeps [OF this assms(3)] show ?thesis by (simp add: grown_def plate_def [abs_def])
qed

theorem history_only_grows_witness:
  "\<exists>cfg start l. main_program demo_platform map_external (lit ''config.yaml'') demo_os Map.empty quiet_world =
      Some (cfg, start, lit ''gobang'') \<and>
    loop_step cfg (EAccept [[5, 0, 99]]) start = Some l \<and> Db (core start) \<subseteq>\<^sub>m Db (core l) \<and>
    map Name (Rooms (core l)) = map Name (Rooms (core start))"
proof -
  obtain cfg start where m: "main_program demo_platform map_external (lit ''config.yaml'') demo_os Map.empty quiet_world =
      Some (cfg, start, lit ''gobang'')" using demo_start by blast
  note st = main_started [OF m map_external_laws]
  obtain l where l: "loop_step cfg (EAccept [[5, 0, 99]]) start = Some l"
    using accepted [of start] started_fields(1) [OF st] by blast
  have "run (loop_step cfg) [EAccept [[5, 0, 99]]] start = Some l" using l by simp
  note h = history_only_grows [OF m map_external_laws this]
  then have "map fst (map (\<lambda>room. (Name room, MaxUsers room)) (Rooms (core l))) =
      map fst (map (\<lambda>room. (Name room, MaxUsers room)) (Rooms (core start)))" by simp
  then have "map Name (Rooms (core l)) = map Name (Rooms (core start))" by (simp add: comp_def)
  then show ?thesis using m l h by auto
qed

text \<open>
  Claim C5. Users and seats agree, whatever the clients send: in every state that the server
  reaches, the players of a room are users of that room and two different users, no user
  object is in a list twice or in two rooms, and the user in the payload of a connection was
  made for that connection.
\<close>

theorem seats_belong_to_users:
  assumes "main_program p e path os db w = Some (cfg, start, name)" "sql_laws e stored"
    and "run (loop_step cfg) es start = Some l"
  shows "(\<forall>room \<in> set (Rooms (core l)). distinct (Users room) \<and>
      (\<forall>u. BlackPlayer room = Some u \<or> WhitePlayer room = Some u \<longrightarrow> u \<in> set (Users room)) \<and>
      (BlackPlayer room = WhitePlayer room \<longrightarrow> BlackPlayer room = None)) \<and>
    (\<forall>i < length (Rooms (core l)). \<forall>j < length (Rooms (core l)). i \<noteq> j \<longrightarrow>
      set (Users (Rooms (core l) ! i)) \<inter> set (Users (Rooms (core l) ! j)) = {}) \<and>
    (\<forall>c u. PUser (Payloads (core l) c) = Some u \<longrightarrow> user_conn u = c)"
proof -
  have ok: "members_ok (core l)" by (rule reached(2) [OF main_started [OF assms(1,2)] assms(3)])
  have seats: "seats_ok room" if "room \<in> set (Rooms (core l))" for room
    using that members_okD(1) [OF ok] by (metis in_set_conv_nth)
  show ?thesis
  proof (intro conjI ballI)
    fix room
    assume "room \<in> set (Rooms (core l))"
    from seats [OF this] show "distinct (Users room)"
      "\<forall>u. BlackPlayer room = Some u \<or> WhitePlayer room = Some u \<longrightarrow> u \<in> set (Users room)"
      "BlackPlayer room = WhitePlayer room \<longrightarrow> BlackPlayer room = None"
      by (simp_all add: seats_ok_def)
  next
    show "\<forall>i < length (Rooms (core l)). \<forall>j < length (Rooms (core l)). i \<noteq> j \<longrightarrow>
        set (Users (Rooms (core l) ! i)) \<inter> set (Users (Rooms (core l) ! j)) = {}"
      using members_okD(2) [OF ok] by blast
    show "\<forall>c u. PUser (Payloads (core l) c) = Some u \<longrightarrow> user_conn u = c"
      using members_okD(4) [OF ok] by blast
  qed
qed

theorem seats_belong_to_users_witness:
  "\<exists>cfg start l. main_program demo_platform map_external (lit ''config.yaml'') demo_os Map.empty quiet_world =
      Some (cfg, start, lit ''gobang'') \<and>
    loop_step cfg (EAccept [frame S_JoinRoom_op (join_bytes (lit ''foo'') (lit ''bar''))]) start = Some l \<and>
    (\<forall>room \<in> set (Rooms (core l)). distinct (Users room))"
proof -
  obtain cfg start where m: "main_program demo_platform map_external (lit ''config.yaml'') demo_os Map.empty quiet_world =
      Some (cfg, start, lit ''gobang'')" using demo_start by blast
  note st = main_started [OF m map_external_laws]
  obtain l where l: "loop_step cfg (EAccept [frame S_JoinRoom_op (join_bytes (lit ''foo'') (lit ''bar''))]) start = Some l"
    using accepted [of start] started_fields(1) [OF st] by blast
  then have "run (loop_step cfg) [EAccept [frame S_JoinRoom_op (join_bytes (lit ''foo'') (lit ''bar''))]] start = Some l"
    by (rule run_one)
  from conjunct1 [OF seats_belong_to_users [OF m map_external_laws this]]
  have "\<forall>room \<in> set (Rooms (core l)). distinct (Users room)" by simp
  then show ?thesis using m l by (intro exI conjI)
qed

text \<open>
  Claim C6. Joining again blocks the first place for ever: when a client whose user is in a
  room sends another join request on the same connection and authenticates again, its first
  user object stays in the list of the room, and on its seat when it had one, along every
  run of the server from there on (only a restart frees the seat).
\<close>

theorem joining_again_blocks_the_seat:
  assumes "main_program p e path os db w = Some (cfg, start, name)" "sql_laws e stored"
    and "members_ok (core l)" "pipes l c = Some (Holding S_JoinRoom_op data rest)"
    and "PUser (Payloads (core l) c) = Some u" "idx < length (Rooms (core l))" "u \<in> set (Users (Rooms (core l) ! idx))"
    and "authenticate (ext cfg) (users cfg) c data (core l) = Some (Inr user, s1)"
    and "run (loop_step cfg) (EPipe c # es) l = Some l'"
  shows "u \<in> set (Users (Rooms (core l') ! idx)) \<and>
    (BlackPlayer (Rooms (core l) ! idx) = Some u \<longrightarrow> BlackPlayer (Rooms (core l') ! idx) = Some u) \<and>
    (WhitePlayer (Rooms (core l) ! idx) = Some u \<longrightarrow> WhitePlayer (Rooms (core l') ! idx) = Some u)"
proof -
  have cfg: "config_ok cfg stored" using main_started [OF assms(1,2)] by (simp add: started_def)
  have op: "us_JoinRoom (users cfg) = S_JoinRoom_op" by (rule main_fields(1) [OF assms(1)])
  have fatal: "us_JoinRoom (users cfg) \<noteq> s_FatalError (fatal cfg)"
    using op cfg by (simp add: config_ok_def S_JoinRoom_op_def S_FatalError_op_def)
  obtain l1 where l1: "pipe_step cfg c l = Some l1" "run (loop_step cfg) es l1 = Some l'"
    using assms(9) by (auto split: option.split_asm)
  then obtain err where "DistributeContext_Next (mdwDistributeList cfg) (distribute cfg)
      \<lparr>Instruction = us_JoinRoom (users cfg), Data = data, Conn = c\<rparr> (core l) = Some (err, core l1)"
    using assms(4) op by (auto simp: pipe_step_def bind_eq_Some_conv)
  note gone = relogin_abandons [OF cfg assms(3,5,6,7) fatal assms(8) this]
  then show ?thesis
    using abandonment.run_keeps [OF conjI [OF cfg gone] l1(2)] by (simp add: abandoned_def)
qed

text \<open>The user foo on the black seat, about to join again on its connection 3.\<close>

definition demo_again :: "(gostring \<rightharpoonup> gostring) loop" where
  "demo_again =
     \<lparr>core = (empty_server Map.empty)
        \<lparr>Rooms := [(mroom_NewRoom (lit ''hall'') 10)\<lparr>BlackPlayer := Some foo, Users := [foo]\<rparr>], next_user := 1,
         Payloads := \<lambda>c. \<lparr>PUser = if c = 3 then Some foo else None, PRoom = if c = 3 then Some 0 else None, Executions = []\<rparr>\<rparr>,
      pipes = [3 \<mapsto> Holding S_JoinRoom_op (join_bytes (lit ''foo'') (lit ''bar'')) []],
      accepting = True, next_conn = 4\<rparr>"

lemma demo_again_sel:
  "Rooms (core demo_again) = [(mroom_NewRoom (lit ''hall'') 10)\<lparr>BlackPlayer := Some foo, Users := [foo]\<rparr>]"
  "PUser (Payloads (core demo_again) c) = (if c = 3 then Some foo else None)"
  "PRoom (Payloads (core demo_again) c) = (if c = 3 then Some 0 else None)"
  "Executions (Payloads (core demo_again) c) = []"
  "World (core demo_again) = quiet_world" "next_user (core demo_again) = 1" "Db (core demo_again) = Map.empty"
  "pipes demo_again = [3 \<mapsto> Holding S_JoinRoom_op (join_bytes (lit ''foo'') (lit ''bar'')) []]"
  by (simp_all add: demo_again_def empty_server_def)

lemma demo_again_room:
  "mroom_ok ((mroom_NewRoom (lit ''hall'') 10)\<lparr>BlackPlayer := Some foo, Users := [foo]\<rparr>)"
  "WhitePlayer (mroom_NewRoom (lit ''hall'') 10) = None"
  using mroom_NewRoom_ok [of "lit ''hall''" 10] joinAsPlayer_ok [of "mroom_NewRoom (lit ''hall'') 10" foo]
  by (simp_all add: joinAsPlayer_eq mroom_NewRoom_def game_room.defs mroom.defs game_NewRoom_def Let_def)

lemma demo_again_login:
  "\<exists>user s1. authenticate map_external um 3 (join_bytes (lit ''foo'') (lit ''bar'')) (core demo_again) = Some (Inr user, s1)"
proof -
  obtain salt w where "RandomString 16 quiet_world = Some (salt, w)"
    using RandomString_returns [OF quiet_ok(2), of 16] by blast
  then show ?thesis
    by (simp add: authenticate_def join_bytes_foo db_authenticate_def db_register_def db_getUser_def
        open_and_prepare_def on_db_def map_external_def demo_again_sel Let_def)
qed

theorem joining_again_blocks_the_seat_witness:
  "\<exists>cfg start l'. main_program demo_platform map_external (lit ''config.yaml'') demo_os Map.empty quiet_world =
      Some (cfg, start, lit ''gobang'') \<and>
    run (loop_step cfg) [EPipe 3] demo_again = Some l' \<and> BlackPlayer (Rooms (core l') ! 0) = Some foo"
proof -
  obtain cfg start where m: "main_program demo_platform map_external (lit ''config.yaml'') demo_os Map.empty quiet_world =
      Some (cfg, start, lit ''gobang'')" using demo_start by blast
  have cfg: "config_ok cfg id" using main_started [OF m map_external_laws] by (simp add: started_def)
  have "loop_ok cfg id demo_again"
    using cfg demo_again_room(1)
    by (simp add: loop_ok_def core_ok_def demo_again_sel quiet_ok live_def polite_empty safe_frame_def
        S_JoinRoom_op_def S_FatalError_op_def S_UserInfo_op_def)
  from loop_step_ok [OF this, of "EPipe 3"] obtain l' where l': "loop_step cfg (EPipe 3) demo_again = Some l'"
    by auto
  have run: "run (loop_step cfg) [EPipe 3] demo_again = Some l'" using l' by (rule run_one)
  have ok: "members_ok (core demo_again)"
    by (simp add: members_ok_def seats_ok_def demo_again_sel demo_again_room(2) foo_def NewUser_def)
  have ext: "ext cfg = map_external" by (rule main_fields(2) [OF m])
  obtain user s1 where a: "authenticate (ext cfg) (users cfg) 3 (join_bytes (lit ''foo'') (lit ''bar'')) (core demo_again) =
      Some (Inr user, s1)"
    using demo_again_login unfolding ext by blast
  have "BlackPlayer (Rooms (core demo_again) ! 0) = Some foo" by (simp add: demo_again_sel)
  then have "BlackPlayer (Rooms (core l') ! 0) = Some foo"
    using joining_again_blocks_the_seat [OF m map_external_laws ok _ _ _ _ a run, where idx = 0]
    by (simp add: demo_again_sel)
  then show ?thesis using m run by (intro exI conjI)
qed

end
